theory Spec2Isabelle
  imports Main "HOL-Library.FSet"
begin

section \<open>Identifier normalisation: \<open>map_iri_to_curie\<close>\<close>

text \<open>
  The script \<^verbatim>\<open>nar/human-gene-coverage.py\<close> keeps its prefix table in the module-level
  dictionary \<^verbatim>\<open>CURIE_MAP\<close>. A dictionary is iterated in insertion order, so the table is
  an association list here.
\<close>

definition CURIE_MAP :: "(string \<times> string) list" where
  "CURIE_MAP =
     [(''http://www.ncbi.nlm.nih.gov/gene/'', ''NCBIGene''),
      (''http://purl.obolibrary.org/obo/NCBITaxon_'', ''NCBITaxon'')]"

text \<open>
  \<^verbatim>\<open>iri.startswith(prefix)\<close> compares characters literally.
\<close>

fun startswith :: "string \<Rightarrow> string \<Rightarrow> bool" where
  "startswith s [] = True"
| "startswith [] (p # ps) = False"
| "startswith (c # cs) (p # ps) = (c = p \<and> startswith cs ps)"

text \<open>
  \<^verbatim>\<open>re.sub(r"{0}".format(prefix), repl, iri)\<close> compiles the prefix as a regular
  expression and replaces every non-overlapping match in the whole string, scanning from
  the left. The prefixes of \<^verbatim>\<open>CURIE_MAP\<close> contain one kind of metacharacter only, the
  dot, which matches every character but a newline; every other character of theirs
  matches itself. \<open>re_match_here\<close> says whether the pattern matches at the start of the
  text, and \<open>re_sub\<close> is the substitution for such patterns. The replacement strings of
  the table hold no backslash, so they are inserted as they are. An empty pattern matches
  at every position, between the characters and at both ends. These definitions describe
  \<^verbatim>\<open>re.sub\<close> for patterns whose only metacharacter is the dot, which covers the table.
\<close>

definition re_char :: "char \<Rightarrow> char \<Rightarrow> bool" where
  "re_char p c = (if p = CHR ''.'' then c \<noteq> CHR 0x0A else c = p)"

fun re_match_here :: "string \<Rightarrow> string \<Rightarrow> bool" where
  "re_match_here [] s = True"
| "re_match_here (p # ps) [] = False"
| "re_match_here (p # ps) (c # cs) = (re_char p c \<and> re_match_here ps cs)"

function re_sub :: "string \<Rightarrow> string \<Rightarrow> string \<Rightarrow> string" where
  "re_sub pat repl s =
     (if pat = [] then repl @ concat (map (\<lambda>c. c # repl) s)
      else if s = [] then []
      else if re_match_here pat s then repl @ re_sub pat repl (drop (length pat) s)
      else hd s # re_sub pat repl (tl s))"
  by pat_completeness auto
termination
  by (relation "measure (\<lambda>(pat, repl, s). length s)") auto

declare re_sub.simps [simp del]

text \<open>
  The loop of \<^verbatim>\<open>map_iri_to_curie\<close> over the table: the first prefix the IRI starts with
  is substituted and the loop breaks; with no such prefix the IRI is returned as it is.
\<close>

fun curie_loop :: "(string \<times> string) list \<Rightarrow> string \<Rightarrow> string" where
  "curie_loop [] iri = iri"
| "curie_loop ((prefix, name) # rest) iri =
     (if startswith iri prefix then re_sub prefix (name @ '':'') iri
      else curie_loop rest iri)"

definition map_iri_to_curie :: "string \<Rightarrow> string" where
  "map_iri_to_curie iri = curie_loop CURIE_MAP iri"

section \<open>Records of the evidence index\<close>

text \<open>
  A gene identifier is a string and a gene set is a Python \<^verbatim>\<open>set\<close>, which is finite. A
  document of the index has the fields the script reads, each of which may be absent. A
  response carries the total number of matches and one page of documents. A transport
  failure and a field that is missing where the script indexes it both end the run with
  an exception.
\<close>

type_synonym gene = string

datatype error = TransportError | KeyError

record doc =
  subject :: "gene option"
  relation :: "string option"
  is_defined_by :: "string list option"
  subject_ortholog_closure :: "gene list option"

record response =
  numFound :: int
  docs :: "doc list"

section \<open>The classification step: \<open>get_model_gene_stats\<close>\<close>

text \<open>
  The dictionary \<^verbatim>\<open>results\<close> of \<^verbatim>\<open>get_model_gene_stats\<close>, by key.
\<close>

record results =
  model_set :: "gene fset"
  model_only :: "gene fset"
  model_human_set :: "gene fset"
  multi_model_set :: "gene fset"
  unmatched_set :: "gene fset"

text \<open>
  One member of an ortholog closure (the body of the innermost loop). The state is the
  dictionary and the flag \<^verbatim>\<open>foundOrtholog\<close>.
\<close>

definition classify_ortholog ::
    "gene fset \<Rightarrow> gene fset \<Rightarrow> results \<times> bool \<Rightarrow> gene \<Rightarrow> results \<times> bool" where
  "classify_ortholog human_genes human_genes_pheno st ortholog =
     (case st of (r, foundOrtholog) \<Rightarrow>
        if ortholog |\<in>| human_genes_pheno then
          (r\<lparr>model_human_set := finsert ortholog (model_human_set r),
             model_set := finsert ortholog (model_set r)\<rparr>, True)
        else if ortholog |\<in>| human_genes then
          (let r1 = r\<lparr>model_set := finsert ortholog (model_set r)\<rparr>;
               r2 = (if ortholog |\<in>| model_only r1
                     then r1\<lparr>multi_model_set := finsert ortholog (multi_model_set r1)\<rparr>
                     else r1\<lparr>model_only := finsert ortholog (model_only r1)\<rparr>)
           in (r2, True))
        else (r, foundOrtholog))"

text \<open>
  One document: its closure, when it has one, is classified member by member, and a
  document with no matching member has its subject recorded as unmatched. Reading the
  subject of a document that has none raises \<^verbatim>\<open>KeyError\<close>.
\<close>

definition classify_doc :: "gene fset \<Rightarrow> gene fset \<Rightarrow> results \<Rightarrow> doc \<Rightarrow> error + results" where
  "classify_doc human_genes human_genes_pheno r d =
     (case (case subject_ortholog_closure d of
              None \<Rightarrow> (r, False)
            | Some closure \<Rightarrow>
                foldl (classify_ortholog human_genes human_genes_pheno) (r, False) closure)
      of (r1, foundOrtholog) \<Rightarrow>
        if \<not> foundOrtholog then
          (case subject d of
             None \<Rightarrow> Inl KeyError
           | Some s \<Rightarrow> Inr (r1\<lparr>unmatched_set := finsert s (unmatched_set r1)\<rparr>))
        else Inr r1)"

text \<open>The documents of one page, in order; an exception ends the loop.\<close>

fun classify_docs :: "gene fset \<Rightarrow> gene fset \<Rightarrow> results \<Rightarrow> doc list \<Rightarrow> error + results" where
  "classify_docs human_genes human_genes_pheno r [] = Inr r"
| "classify_docs human_genes human_genes_pheno r (d # ds) =
     (case classify_doc human_genes human_genes_pheno r d of
        Inl e \<Rightarrow> Inl e
      | Inr r1 \<Rightarrow> classify_docs human_genes human_genes_pheno r1 ds)"

text \<open>
  The paging loop. \<open>fetch start\<close> stands for the request at offset \<open>start\<close> and the
  decoding of its answer. The loop reads the number of matches from every answer, so a
  server whose count keeps growing keeps it running: the result \<open>None\<close> is a run that
  does not end.
\<close>

definition rows :: int where
  "rows = 1000"

partial_function (option) stats_pages ::
    "(int \<Rightarrow> error + response) \<Rightarrow> gene fset \<Rightarrow> gene fset \<Rightarrow> int \<Rightarrow> int \<Rightarrow> results
      \<Rightarrow> (error + results) option" where
  "stats_pages fetch human_genes human_genes_pheno start resultCount r =
     (if start < resultCount then
        (case fetch start of
           Inl e \<Rightarrow> Some (Inl e)
         | Inr resp \<Rightarrow>
             (case classify_docs human_genes human_genes_pheno r (docs resp) of
                Inl e \<Rightarrow> Some (Inl e)
              | Inr r1 \<Rightarrow>
                  stats_pages fetch human_genes human_genes_pheno (start + rows)
                    (numFound resp) r1))
      else Some (Inr r))"

declare stats_pages.simps [code]

text \<open>
  \<open>solr taxon_curie start\<close> is the index queried for the phenotype records of a taxon.
  The three accumulators come from the caller; the organism's own set and the unmatched
  set start empty.
\<close>

definition get_model_gene_stats ::
    "(string \<Rightarrow> int \<Rightarrow> error + response) \<Rightarrow> string \<Rightarrow> gene fset \<Rightarrow> gene fset
      \<Rightarrow> gene fset \<Rightarrow> gene fset \<Rightarrow> gene fset \<Rightarrow> (error + results) option" where
  "get_model_gene_stats solr taxon_curie human_genes human_genes_pheno
       model_human_set0 model_only0 multi_model_set0 =
     stats_pages (solr taxon_curie) human_genes human_genes_pheno 0 rows
       \<lparr>model_set = {||}, model_only = model_only0, model_human_set = model_human_set0,
        multi_model_set = multi_model_set0, unmatched_set = {||}\<rparr>"

section \<open>The run over the organisms: \<open>main\<close>\<close>

text \<open>
  The organisms of the script, in the order of the dictionary.
\<close>

definition TAXON_MAP :: "(string \<times> string) list" where
  "TAXON_MAP =
     [(''Mouse'', ''http://purl.obolibrary.org/obo/NCBITaxon_10090''),
      (''ZebraFish'', ''http://purl.obolibrary.org/obo/NCBITaxon_7955''),
      (''Worm'', ''http://purl.obolibrary.org/obo/NCBITaxon_6239''),
      (''Fly'', ''http://purl.obolibrary.org/obo/NCBITaxon_7227'')]"

text \<open>
  The local variables of \<^verbatim>\<open>main\<close> that the classification uses. \<^verbatim>\<open>main\<close> never
  assigns \<^verbatim>\<open>multi_model_set\<close> again: the step adds to the very set object it was
  given, so the variable holds what the step's dictionary holds under that key. The
  store model further down has the script's assignments only, and is shown to compute
  the same.
\<close>

record main_vars =
  var_model_only :: "gene fset"
  all_models :: "string \<rightharpoonup> gene fset"
  var_model_human_set :: "gene fset"
  var_multi_model_set :: "gene fset"

definition init_vars :: main_vars where
  "init_vars = \<lparr>var_model_only = {||}, all_models = Map.empty,
                 var_model_human_set = {||}, var_multi_model_set = {||}\<rparr>"

text \<open>The loop that calls the step for every organism of the table.\<close>

fun classify_taxa ::
    "(string \<Rightarrow> int \<Rightarrow> error + response) \<Rightarrow> gene fset \<Rightarrow> gene fset
      \<Rightarrow> (string \<times> string) list \<Rightarrow> main_vars \<Rightarrow> (error + main_vars) option" where
  "classify_taxa solr human_genes human_genes_pheno [] v = Some (Inr v)"
| "classify_taxa solr human_genes human_genes_pheno ((taxon, taxon_iri) # rest) v =
     (case get_model_gene_stats solr (map_iri_to_curie taxon_iri) human_genes
             human_genes_pheno (var_model_human_set v) (var_model_only v)
             (var_multi_model_set v) of
        None \<Rightarrow> None
      | Some (Inl e) \<Rightarrow> Some (Inl e)
      | Some (Inr res) \<Rightarrow>
          classify_taxa solr human_genes human_genes_pheno rest
            \<lparr>var_model_only = model_only res,
             all_models = (all_models v)(taxon \<mapsto> model_set res),
             var_model_human_set = model_human_set res,
             var_multi_model_set = multi_model_set res\<rparr>)"

text \<open>
  The numbers \<^verbatim>\<open>main\<close> prints after the loop. \<^verbatim>\<open>len\<close> of a set is its cardinality,
  and the differences are differences of Python integers.
\<close>

definition one_species_count :: "main_vars \<Rightarrow> string \<Rightarrow> error + int" where
  "one_species_count v taxon =
     (case all_models v taxon of
        None \<Rightarrow> Inl KeyError
      | Some ms \<Rightarrow>
          Inr (int (fcard ms) - int (fcard (ms |\<inter>| var_multi_model_set v))
               - int (fcard (ms |\<inter>| var_model_human_set v))))"

fun one_species_counts :: "main_vars \<Rightarrow> (string \<times> string) list \<Rightarrow> error + (string \<times> int) list" where
  "one_species_counts v [] = Inr []"
| "one_species_counts v ((taxon, taxon_iri) # rest) =
     (case one_species_count v taxon of
        Inl e \<Rightarrow> Inl e
      | Inr n \<Rightarrow>
          (case one_species_counts v rest of
             Inl e \<Rightarrow> Inl e
           | Inr ns \<Rightarrow> Inr ((taxon, n) # ns)))"

record report =
  models_only :: int
  models_plus_human :: int
  human_only :: int
  multi_species :: int
  one_species :: "(string \<times> int) list"

text \<open>
  The classification part of \<^verbatim>\<open>main\<close>, from the creation of the accumulators to the
  last line printed. The two human gene sets, which \<^verbatim>\<open>main\<close> fetches first, and the
  table of organisms are parameters.
\<close>

definition main_classification ::
    "(string \<Rightarrow> int \<Rightarrow> error + response) \<Rightarrow> (string \<times> string) list \<Rightarrow> gene fset \<Rightarrow> gene fset
      \<Rightarrow> (error + main_vars \<times> report) option" where
  "main_classification solr taxon_map human_genes human_genes_pheno =
     (case classify_taxa solr human_genes human_genes_pheno taxon_map init_vars of
        None \<Rightarrow> None
      | Some (Inl e) \<Rightarrow> Some (Inl e)
      | Some (Inr v) \<Rightarrow>
          (case one_species_counts v taxon_map of
             Inl e \<Rightarrow> Some (Inl e)
           | Inr ns \<Rightarrow>
               Some (Inr (v,
                 \<lparr>models_only = int (fcard (var_model_only v)),
                  models_plus_human = int (fcard (var_model_human_set v)),
                  human_only = int (fcard human_genes_pheno) - int (fcard (var_model_human_set v)),
                  multi_species = int (fcard (var_multi_model_set v)),
                  one_species = ns\<rparr>))))"

section \<open>Causal associations: \<open>get_causal_gene_phenotype_assocs\<close>\<close>

definition causal_source :: "string list" where
  "causal_source =
     [''http://data.monarchinitiative.org/ttl/clinvar.ttl'',
      ''http://data.monarchinitiative.org/ttl/omim.ttl'',
      ''http://data.monarchinitiative.org/ttl/orphanet.ttl'']"

definition likely_pathogenic :: string where
  "likely_pathogenic = ''GENO:0000841''"

definition hpoa :: string where
  "hpoa = ''http://data.monarchinitiative.org/ttl/hpoa.ttl''"

text \<open>
  One document (the body of the loop over a page): the two \<^verbatim>\<open>continue\<close> tests, then
  the subject is added, which raises \<^verbatim>\<open>KeyError\<close> when the document has none.
\<close>

definition causal_doc :: "gene fset \<Rightarrow> doc \<Rightarrow> error + gene fset" where
  "causal_doc result_set d =
     (if (case relation d of None \<Rightarrow> False | Some rel \<Rightarrow> rel = likely_pathogenic)
      then Inr result_set
      else if (case is_defined_by d of
                 None \<Rightarrow> False
               | Some sources \<Rightarrow>
                   length (filter (\<lambda>source. source \<in> set causal_source) sources) = 0
                   \<and> sources \<noteq> [hpoa])
      then Inr result_set
      else (case subject d of
              None \<Rightarrow> Inl KeyError
            | Some s \<Rightarrow> Inr (finsert s result_set)))"

fun causal_docs :: "gene fset \<Rightarrow> doc list \<Rightarrow> error + gene fset" where
  "causal_docs result_set [] = Inr result_set"
| "causal_docs result_set (d # ds) =
     (case causal_doc result_set d of
        Inl e \<Rightarrow> Inl e
      | Inr result_set1 \<Rightarrow> causal_docs result_set1 ds)"

partial_function (option) causal_pages ::
    "(int \<Rightarrow> error + response) \<Rightarrow> int \<Rightarrow> int \<Rightarrow> gene fset \<Rightarrow> (error + gene fset) option" where
  "causal_pages fetch start resultCount result_set =
     (if start < resultCount then
        (case fetch start of
           Inl e \<Rightarrow> Some (Inl e)
         | Inr resp \<Rightarrow>
             (case causal_docs result_set (docs resp) of
                Inl e \<Rightarrow> Some (Inl e)
              | Inr result_set1 \<Rightarrow>
                  causal_pages fetch (start + rows) (numFound resp) result_set1))
      else Some (Inr result_set))"

declare causal_pages.simps [code]

definition get_causal_gene_phenotype_assocs ::
    "(int \<Rightarrow> error + response) \<Rightarrow> (error + gene fset) option" where
  "get_causal_gene_phenotype_assocs fetch = causal_pages fetch 0 rows {||}"

text \<open>
  The records a run of the paging loop reads when nothing raises: the pages at the
  offsets the loop requests, in order, each offset tested against the count the page
  before reported.
\<close>

partial_function (option) pages_read ::
    "(int \<Rightarrow> error + response) \<Rightarrow> int \<Rightarrow> int \<Rightarrow> doc list option" where
  "pages_read fetch start resultCount =
     (if start < resultCount then
        (case fetch start of
           Inl e \<Rightarrow> Some []
         | Inr resp \<Rightarrow>
             Option.bind (pages_read fetch (start + rows) (numFound resp))
               (\<lambda>rest. Some (docs resp @ rest)))
      else Some [])"

declare pages_read.simps [code]

text \<open>
  The rule of the specification for one record, in its words: the relation is not the
  likely-pathogenic code, and the record has no provenance list, or one of its sources is
  in the allowlist, or its provenance list is the curated phenotype annotation source
  alone.
\<close>

definition spec_causal_accepts :: "doc \<Rightarrow> bool" where
  "spec_causal_accepts d =
     (relation d \<noteq> Some likely_pathogenic \<and>
      (case is_defined_by d of
         None \<Rightarrow> True
       | Some sources \<Rightarrow> list_ex (\<lambda>source. source \<in> set causal_source) sources \<or> sources = [hpoa]))"

section \<open>The step on a store of set objects\<close>

text \<open>
  \<^verbatim>\<open>get_model_gene_stats\<close> does not copy the sets it is given: the dictionary holds
  references to the caller's objects and \<^verbatim>\<open>add\<close> changes them in place. To say which
  objects a call writes, the same code is modelled once more on a store. An address names
  a set object, \<open>cells\<close> gives the contents of each, and \<open>next_free\<close> is the first address
  not yet in use, so that \<^verbatim>\<open>set()\<close> creates an object no earlier reference names.
\<close>

type_synonym addr = nat

record store =
  cells :: "addr \<Rightarrow> gene fset"
  next_free :: addr

definition new_set :: "store \<Rightarrow> addr \<times> store" where
  "new_set h =
     (next_free h, h\<lparr>cells := (cells h)(next_free h := {||}), next_free := Suc (next_free h)\<rparr>)"

definition set_add :: "addr \<Rightarrow> gene \<Rightarrow> store \<Rightarrow> store" where
  "set_add a x h = h\<lparr>cells := (cells h)(a := finsert x (cells h a))\<rparr>"

definition set_has :: "store \<Rightarrow> addr \<Rightarrow> gene \<Rightarrow> bool" where
  "set_has h a x = (x |\<in>| cells h a)"

text \<open>The dictionary \<^verbatim>\<open>results\<close> as it is in memory: a reference under every key.\<close>

record results_at =
  at_model_set :: addr
  at_model_only :: addr
  at_model_human_set :: addr
  at_multi_model_set :: addr
  at_unmatched_set :: addr

definition classify_ortholog_at ::
    "addr \<Rightarrow> addr \<Rightarrow> results_at \<Rightarrow> store \<times> bool \<Rightarrow> gene \<Rightarrow> store \<times> bool" where
  "classify_ortholog_at human_genes human_genes_pheno res st ortholog =
     (case st of (h, foundOrtholog) \<Rightarrow>
        if set_has h human_genes_pheno ortholog then
          (set_add (at_model_set res) ortholog
             (set_add (at_model_human_set res) ortholog h), True)
        else if set_has h human_genes ortholog then
          (let h1 = set_add (at_model_set res) ortholog h;
               h2 = (if set_has h1 (at_model_only res) ortholog
                     then set_add (at_multi_model_set res) ortholog h1
                     else set_add (at_model_only res) ortholog h1)
           in (h2, True))
        else (h, foundOrtholog))"

text \<open>
  An exception leaves the store as it is at that moment, so every loop returns the store
  together with the exception, if there is one.
\<close>

definition classify_doc_at ::
    "addr \<Rightarrow> addr \<Rightarrow> results_at \<Rightarrow> store \<Rightarrow> doc \<Rightarrow> error option \<times> store" where
  "classify_doc_at human_genes human_genes_pheno res h d =
     (case (case subject_ortholog_closure d of
              None \<Rightarrow> (h, False)
            | Some closure \<Rightarrow>
                foldl (classify_ortholog_at human_genes human_genes_pheno res) (h, False) closure)
      of (h1, foundOrtholog) \<Rightarrow>
        if \<not> foundOrtholog then
          (case subject d of
             None \<Rightarrow> (Some KeyError, h1)
           | Some s \<Rightarrow> (None, set_add (at_unmatched_set res) s h1))
        else (None, h1))"

fun classify_docs_at ::
    "addr \<Rightarrow> addr \<Rightarrow> results_at \<Rightarrow> store \<Rightarrow> doc list \<Rightarrow> error option \<times> store" where
  "classify_docs_at human_genes human_genes_pheno res h [] = (None, h)"
| "classify_docs_at human_genes human_genes_pheno res h (d # ds) =
     (case classify_doc_at human_genes human_genes_pheno res h d of
        (Some e, h1) \<Rightarrow> (Some e, h1)
      | (None, h1) \<Rightarrow> classify_docs_at human_genes human_genes_pheno res h1 ds)"

partial_function (option) stats_pages_at ::
    "(int \<Rightarrow> error + response) \<Rightarrow> addr \<Rightarrow> addr \<Rightarrow> results_at \<Rightarrow> int \<Rightarrow> int \<Rightarrow> store
      \<Rightarrow> (error option \<times> store) option" where
  "stats_pages_at fetch human_genes human_genes_pheno res start resultCount h =
     (if start < resultCount then
        (case fetch start of
           Inl e \<Rightarrow> Some (Some e, h)
         | Inr resp \<Rightarrow>
             (case classify_docs_at human_genes human_genes_pheno res h (docs resp) of
                (Some e, h1) \<Rightarrow> Some (Some e, h1)
              | (None, h1) \<Rightarrow>
                  stats_pages_at fetch human_genes human_genes_pheno res (start + rows)
                    (numFound resp) h1))
      else Some (None, h))"

declare stats_pages_at.simps [code]

text \<open>
  The call: the five arguments that are sets are references. The dictionary literal
  creates the organism's set first and the unmatched set last; the other three keys hold
  the references received.
\<close>

definition get_model_gene_stats_at ::
    "(string \<Rightarrow> int \<Rightarrow> error + response) \<Rightarrow> string \<Rightarrow> addr \<Rightarrow> addr \<Rightarrow> addr \<Rightarrow> addr \<Rightarrow> addr
      \<Rightarrow> store \<Rightarrow> ((error + results_at) \<times> store) option" where
  "get_model_gene_stats_at solr taxon_curie human_genes human_genes_pheno
       model_human_set0 model_only0 multi_model_set0 h =
     (case new_set h of (a_model, h1) \<Rightarrow>
      case new_set h1 of (a_unmatched, h2) \<Rightarrow>
        (let res = \<lparr>at_model_set = a_model, at_model_only = model_only0,
                    at_model_human_set = model_human_set0,
                    at_multi_model_set = multi_model_set0,
                    at_unmatched_set = a_unmatched\<rparr>
         in case stats_pages_at (solr taxon_curie) human_genes human_genes_pheno res 0 rows h2 of
              None \<Rightarrow> None
            | Some (Some e, h3) \<Rightarrow> Some (Inl e, h3)
            | Some (None, h3) \<Rightarrow> Some (Inr res, h3)))"

text \<open>What the dictionary denotes in a store: the contents behind each reference.\<close>

definition contents :: "store \<Rightarrow> results_at \<Rightarrow> results" where
  "contents h res =
     \<lparr>model_set = cells h (at_model_set res), model_only = cells h (at_model_only res),
      model_human_set = cells h (at_model_human_set res),
      multi_model_set = cells h (at_multi_model_set res),
      unmatched_set = cells h (at_unmatched_set res)\<rparr>"


text \<open>
  The loop of \<^verbatim>\<open>main\<close> on the store. Its variables hold references; after a call it
  takes \<^verbatim>\<open>model_only\<close> and \<^verbatim>\<open>model_human_set\<close> from the dictionary returned and
  stores the organism's set in \<^verbatim>\<open>all_models\<close>. It never assigns \<^verbatim>\<open>multi_model_set\<close>.
\<close>

record main_refs =
  ref_model_only :: addr
  ref_all_models :: "string \<rightharpoonup> addr"
  ref_model_human_set :: addr
  ref_multi_model_set :: addr

fun classify_taxa_at ::
    "(string \<Rightarrow> int \<Rightarrow> error + response) \<Rightarrow> addr \<Rightarrow> addr \<Rightarrow> (string \<times> string) list
      \<Rightarrow> main_refs \<Rightarrow> store \<Rightarrow> ((error + main_refs) \<times> store) option" where
  "classify_taxa_at solr human_genes human_genes_pheno [] v h = Some (Inr v, h)"
| "classify_taxa_at solr human_genes human_genes_pheno ((taxon, taxon_iri) # rest) v h =
     (case get_model_gene_stats_at solr (map_iri_to_curie taxon_iri) human_genes
             human_genes_pheno (ref_model_human_set v) (ref_model_only v)
             (ref_multi_model_set v) h of
        None \<Rightarrow> None
      | Some (Inl e, h1) \<Rightarrow> Some (Inl e, h1)
      | Some (Inr res, h1) \<Rightarrow>
          classify_taxa_at solr human_genes human_genes_pheno rest
            (v\<lparr>ref_model_only := at_model_only res,
               ref_all_models := (ref_all_models v)(taxon \<mapsto> at_model_set res),
               ref_model_human_set := at_model_human_set res\<rparr>) h1)"

text \<open>What the variables denote in a store.\<close>

definition vars_contents :: "store \<Rightarrow> main_refs \<Rightarrow> main_vars" where
  "vars_contents h v =
     \<lparr>var_model_only = cells h (ref_model_only v),
      all_models = (\<lambda>taxon. map_option (cells h) (ref_all_models v taxon)),
      var_model_human_set = cells h (ref_model_human_set v),
      var_multi_model_set = cells h (ref_multi_model_set v)\<rparr>"

text \<open>
  The classification part of \<^verbatim>\<open>main\<close> on the store: the accumulators are created in
  the order of the script, the loop runs, and the counts are read from the store.
\<close>

definition main_classification_at ::
    "(string \<Rightarrow> int \<Rightarrow> error + response) \<Rightarrow> (string \<times> string) list \<Rightarrow> addr \<Rightarrow> addr \<Rightarrow> store
      \<Rightarrow> ((error + main_refs \<times> report) \<times> store) option" where
  "main_classification_at solr taxon_map human_genes human_genes_pheno h =
     (case new_set h of (a_model_only, h1) \<Rightarrow>
      case new_set h1 of (a_model_human, h2) \<Rightarrow>
      case new_set h2 of (a_multi_model, h3) \<Rightarrow>
      case classify_taxa_at solr human_genes human_genes_pheno taxon_map
             \<lparr>ref_model_only = a_model_only, ref_all_models = Map.empty,
              ref_model_human_set = a_model_human, ref_multi_model_set = a_multi_model\<rparr> h3 of
        None \<Rightarrow> None
      | Some (Inl e, h4) \<Rightarrow> Some (Inl e, h4)
      | Some (Inr v, h4) \<Rightarrow>
          (case one_species_counts (vars_contents h4 v) taxon_map of
             Inl e \<Rightarrow> Some (Inl e, h4)
           | Inr ns \<Rightarrow>
               Some (Inr (v,
                 \<lparr>models_only = int (fcard (cells h4 (ref_model_only v))),
                  models_plus_human = int (fcard (cells h4 (ref_model_human_set v))),
                  human_only = int (fcard (cells h4 human_genes_pheno))
                               - int (fcard (cells h4 (ref_model_human_set v))),
                  multi_species = int (fcard (cells h4 (ref_multi_model_set v))),
                  one_species = ns\<rparr>), h4)))"

section \<open>Example runs\<close>

text \<open>
  Concrete inputs on which the definitions above are evaluated further down. A record of
  the phenotype index for a model gene carries its subject and its ortholog closure.
\<close>

definition ortholog_doc :: "gene \<Rightarrow> gene list \<Rightarrow> doc" where
  "ortholog_doc s closure =
     \<lparr>subject = Some s, relation = None, is_defined_by = None,
      subject_ortholog_closure = Some closure\<rparr>"

text \<open>
  The scenario of the specification: three organisms \<open>A\<close>, \<open>B\<close> and \<open>C\<close>, each with one
  record, whose closures hold \<open>H1\<close> and \<open>H3\<close>, \<open>H3\<close> and \<open>H4\<close>, and \<open>H4\<close>.
\<close>

definition scenario_taxa :: "(string \<times> string) list" where
  "scenario_taxa =
     [(''A'', ''http://purl.obolibrary.org/obo/NCBITaxon_1''),
      (''B'', ''http://purl.obolibrary.org/obo/NCBITaxon_2''),
      (''C'', ''http://purl.obolibrary.org/obo/NCBITaxon_3'')]"

definition scenario_solr :: "string \<Rightarrow> int \<Rightarrow> error + response" where
  "scenario_solr taxon_curie start =
     (if start \<noteq> 0 then Inr \<lparr>numFound = 1, docs = []\<rparr>
      else if taxon_curie = ''NCBITaxon:1''
        then Inr \<lparr>numFound = 1, docs = [ortholog_doc ''a1'' [''H1'', ''H3'']]\<rparr>
      else if taxon_curie = ''NCBITaxon:2''
        then Inr \<lparr>numFound = 1, docs = [ortholog_doc ''b1'' [''H3'', ''H4'']]\<rparr>
      else if taxon_curie = ''NCBITaxon:3''
        then Inr \<lparr>numFound = 1, docs = [ortholog_doc ''c1'' [''H4'']]\<rparr>
      else Inr \<lparr>numFound = 0, docs = []\<rparr>)"

definition scenario_human_genes :: "gene fset" where
  "scenario_human_genes = {|''H1'', ''H2'', ''H3'', ''H4''|}"

definition scenario_pheno :: "gene fset" where
  "scenario_pheno = {|''H1'', ''H2''|}"

text \<open>
  An index in which the mouse alone has records: two mouse genes, paralogs of each other,
  whose closures both hold the human gene \<open>H3\<close>. No other organism of \<^verbatim>\<open>TAXON_MAP\<close>
  has a record.
\<close>

definition paralog_solr :: "string \<Rightarrow> int \<Rightarrow> error + response" where
  "paralog_solr taxon_curie start =
     (if start = 0 \<and> taxon_curie = ''NCBITaxon:10090''
      then Inr \<lparr>numFound = 2,
                docs = [ortholog_doc ''MGI:1'' [''H3''], ortholog_doc ''MGI:2'' [''H3'']]\<rparr>
      else Inr \<lparr>numFound = 0, docs = []\<rparr>)"

text \<open>
  The store \<^verbatim>\<open>main\<close> starts from for this index: the human genes, \<open>H3\<close> alone, at
  address 0, and the evidence set, empty, at address 1.
\<close>

definition paralog_store :: store where
  "paralog_store = \<lparr>cells = (\<lambda>a. {||})(0 := {|''H3''|}), next_free = 2\<rparr>"

text \<open>What the scenario's run leaves in the variables of \<^verbatim>\<open>main\<close>, and what it prints.\<close>

definition scenario_vars :: main_vars where
  "scenario_vars =
     \<lparr>var_model_only = {|''H3'', ''H4''|},
      all_models = [''A'' \<mapsto> {|''H1'', ''H3''|}, ''B'' \<mapsto> {|''H3'', ''H4''|},
                    ''C'' \<mapsto> {|''H4''|}],
      var_model_human_set = {|''H1''|},
      var_multi_model_set = {|''H3'', ''H4''|}\<rparr>"

definition scenario_report :: report where
  "scenario_report =
     \<lparr>models_only = 2, models_plus_human = 1, human_only = 1, multi_species = 2,
      one_species = [(''A'', 0), (''B'', 0), (''C'', 0)]\<rparr>"

text \<open>
  A store for the first step of the scenario: the human genes at address 0, the evidence
  set at 1, and the three accumulators, still empty, at 2 (\<open>model_human_set\<close>), 3
  (\<open>model_only\<close>) and 4 (\<open>multi_model_set\<close>).
\<close>

definition scenario_store :: store where
  "scenario_store =
     \<lparr>cells = (\<lambda>a. {||})(0 := scenario_human_genes, 1 := scenario_pheno), next_free = 5\<rparr>"

text \<open>
  The store after a call of the step that is given the evidence set, at address 1, as
  \<open>model_only\<close> too.
\<close>

definition shared_result_store :: store where
  "shared_result_store =
     \<lparr>cells = (\<lambda>a. {||})(0 := scenario_human_genes, 1 := {|''H1'', ''H2'', ''H3''|},
                 2 := {|''H1''|}, 5 := {|''H1'', ''H3''|}),
      next_free = 7\<rparr>"

text \<open>
  An index of human gene records, one page: a record from an allowlisted source, a
  likely-pathogenic record from an allowlisted source, a record from another source, a
  record from the curated phenotype annotation alone, and a record with no provenance.
\<close>

definition causal_example_fetch :: "int \<Rightarrow> error + response" where
  "causal_example_fetch start =
     (if start = 0 then
        Inr \<lparr>numFound = 5,
             docs =
               [\<lparr>subject = Some ''g1'', relation = Some ''GENO:0000840'',
                 is_defined_by = Some [''http://data.monarchinitiative.org/ttl/clinvar.ttl''],
                 subject_ortholog_closure = None\<rparr>,
                \<lparr>subject = Some ''g2'', relation = Some ''GENO:0000841'',
                 is_defined_by = Some [''http://data.monarchinitiative.org/ttl/clinvar.ttl''],
                 subject_ortholog_closure = None\<rparr>,
                \<lparr>subject = Some ''g3'', relation = None,
                 is_defined_by = Some [''http://data.monarchinitiative.org/ttl/mgi.ttl''],
                 subject_ortholog_closure = None\<rparr>,
                \<lparr>subject = Some ''g4'', relation = None,
                 is_defined_by = Some [''http://data.monarchinitiative.org/ttl/hpoa.ttl''],
                 subject_ortholog_closure = None\<rparr>,
                \<lparr>subject = Some ''g5'', relation = None, is_defined_by = None,
                 subject_ortholog_closure = None\<rparr>]\<rparr>
      else Inr \<lparr>numFound = 5, docs = []\<rparr>)"

section \<open>Properties of the normaliser\<close>

lemma startswith_re_match_here: "startswith s pat \<Longrightarrow> re_match_here pat s"
  by (induction s pat rule: startswith.induct) (auto simp: re_char_def)

lemma startswith_iff: "startswith s pat \<longleftrightarrow> (\<exists>rest. s = pat @ rest)"
proof
  show "startswith s pat \<Longrightarrow> \<exists>rest. s = pat @ rest"
    by (induction s pat rule: startswith.induct) auto
next
  assume "\<exists>rest. s = pat @ rest"
  then obtain rest where "s = pat @ rest" ..
  then show "startswith s pat"
    by (induction pat arbitrary: s) auto
qed

lemma re_sub_at_prefix:
  assumes "startswith s pat" and "pat \<noteq> []"
  shows "re_sub pat repl s = repl @ re_sub pat repl (drop (length pat) s)"
proof -
  from assms have "s \<noteq> []" by (cases s; cases pat) auto
  with assms startswith_re_match_here [OF assms(1)] show ?thesis
    by (subst re_sub.simps) simp
qed

lemma curie_loop_no_match:
  "\<forall>(prefix, name) \<in> set tbl. \<not> startswith x prefix \<Longrightarrow> curie_loop tbl x = x"
  by (induction tbl) auto

text \<open>
  The loop stops at the first entry whose prefix the IRI starts with, and what it returns
  there is the substitution over the whole IRI.
\<close>

lemma curie_loop_first_match:
  assumes "\<forall>(p, n) \<in> set before. \<not> startswith x p" and "startswith x prefix"
  shows "curie_loop (before @ (prefix, name) # rest) x = re_sub prefix (name @ '':'') x"
  using assms by (induction before) auto

lemma map_iri_to_curie_cases:
  "map_iri_to_curie x =
     (if startswith x ''http://www.ncbi.nlm.nih.gov/gene/''
      then ''NCBIGene:'' @ re_sub ''http://www.ncbi.nlm.nih.gov/gene/'' ''NCBIGene:''
             (drop (length ''http://www.ncbi.nlm.nih.gov/gene/'') x)
      else if startswith x ''http://purl.obolibrary.org/obo/NCBITaxon_''
      then ''NCBITaxon:'' @ re_sub ''http://purl.obolibrary.org/obo/NCBITaxon_'' ''NCBITaxon:''
             (drop (length ''http://purl.obolibrary.org/obo/NCBITaxon_'') x)
      else x)"
  by (simp add: map_iri_to_curie_def CURIE_MAP_def re_sub_at_prefix)

lemma map_iri_to_curie_no_prefix:
  "\<forall>(prefix, name) \<in> set CURIE_MAP. \<not> startswith (map_iri_to_curie x) prefix"
  by (simp add: map_iri_to_curie_cases) (simp add: CURIE_MAP_def)

text \<open>
  Claim C7. The normaliser is to return, at the first table entry whose prefix the input
  starts with, the compact prefix, a colon and the rest of the input as it is. The code
  substitutes with \<^verbatim>\<open>re.sub\<close>, which replaces every match of the prefix in the input and
  not the leading one alone: an input in which the first prefix occurs twice comes back
  with both occurrences replaced, so the rest of the input is not kept as it is.
\<close>

theorem normalize_repeated_prefix:
  "map_iri_to_curie ''http://www.ncbi.nlm.nih.gov/gene/http://www.ncbi.nlm.nih.gov/gene/1''
     = ''NCBIGene:NCBIGene:1''
   \<and> startswith ''http://www.ncbi.nlm.nih.gov/gene/http://www.ncbi.nlm.nih.gov/gene/1''
        (fst (hd CURIE_MAP))
   \<and> map_iri_to_curie ''http://www.ncbi.nlm.nih.gov/gene/http://www.ncbi.nlm.nih.gov/gene/1''
       \<noteq> snd (hd CURIE_MAP) @ '':'' @ drop (length (fst (hd CURIE_MAP)))
            ''http://www.ncbi.nlm.nih.gov/gene/http://www.ncbi.nlm.nih.gov/gene/1''"
  by code_simp

text \<open>
  Claim C8. Whenever the normalised form of a string starts with no prefix of the table,
  normalising it again changes nothing; with the table of the script no normalised form
  starts with a prefix of the table, so normalising twice equals normalising once for
  every string.
\<close>

theorem normalize_idempotent:
  "(\<forall>x. (\<forall>(prefix, name) \<in> set CURIE_MAP. \<not> startswith (map_iri_to_curie x) prefix)
        \<longrightarrow> map_iri_to_curie (map_iri_to_curie x) = map_iri_to_curie x)
   \<and> (\<forall>x. \<forall>(prefix, name) \<in> set CURIE_MAP. \<not> startswith (map_iri_to_curie x) prefix)
   \<and> (\<forall>x. map_iri_to_curie (map_iri_to_curie x) = map_iri_to_curie x)"
proof -
  have a: "map_iri_to_curie (map_iri_to_curie x) = map_iri_to_curie x"
    if "\<forall>(prefix, name) \<in> set CURIE_MAP. \<not> startswith (map_iri_to_curie x) prefix" for x
    using that unfolding map_iri_to_curie_def [of "curie_loop CURIE_MAP x"]
    by (simp add: curie_loop_no_match map_iri_to_curie_def)
  show ?thesis using a map_iri_to_curie_no_prefix by blast
qed

theorem normalize_idempotent_witness:
  "\<not> startswith (map_iri_to_curie ''http://www.ncbi.nlm.nih.gov/gene/672'')
        ''http://www.ncbi.nlm.nih.gov/gene/''
   \<and> \<not> startswith (map_iri_to_curie ''http://www.ncbi.nlm.nih.gov/gene/672'')
        ''http://purl.obolibrary.org/obo/NCBITaxon_''
   \<and> map_iri_to_curie ''http://www.ncbi.nlm.nih.gov/gene/672'' = ''NCBIGene:672''
   \<and> map_iri_to_curie (map_iri_to_curie ''http://www.ncbi.nlm.nih.gov/gene/672'')
       = ''NCBIGene:672''"
proof -
  have v: "map_iri_to_curie ''http://www.ncbi.nlm.nih.gov/gene/672'' = ''NCBIGene:672''"
    by code_simp
  note inst = normalize_idempotent
  have n: "\<forall>(prefix, name) \<in> set CURIE_MAP.
          \<not> startswith (map_iri_to_curie ''http://www.ncbi.nlm.nih.gov/gene/672'') prefix"
    by (rule inst [THEN conjunct2, THEN conjunct1, THEN spec])
  from inst [THEN conjunct1, THEN spec, THEN mp, OF n]
  have i: "map_iri_to_curie (map_iri_to_curie ''http://www.ncbi.nlm.nih.gov/gene/672'')
          = map_iri_to_curie ''http://www.ncbi.nlm.nih.gov/gene/672''" .
  from n have "\<not> startswith (map_iri_to_curie ''http://www.ncbi.nlm.nih.gov/gene/672'')
        ''http://www.ncbi.nlm.nih.gov/gene/''"
    and "\<not> startswith (map_iri_to_curie ''http://www.ncbi.nlm.nih.gov/gene/672'')
        ''http://purl.obolibrary.org/obo/NCBITaxon_''"
    by (simp_all add: CURIE_MAP_def)
  with i v show ?thesis by simp
qed

section \<open>Properties of the causal extraction\<close>

lemma causal_doc_refines:
  "causal_doc rs d =
     (if spec_causal_accepts d
      then (case subject d of None \<Rightarrow> Inl KeyError | Some s \<Rightarrow> Inr (finsert s rs))
      else Inr rs)"
  by (auto simp: causal_doc_def spec_causal_accepts_def list_ex_iff filter_empty_conv
           split: option.splits)

text \<open>
  The documents of a page: the result set grows by the subjects of the records that meet
  the rule.
\<close>

lemma causal_docs_result:
  "causal_docs rs ds = Inr rs' \<Longrightarrow>
   s |\<in>| rs' \<longleftrightarrow> s |\<in>| rs \<or> (\<exists>d \<in> set ds. spec_causal_accepts d \<and> subject d = Some s)"
proof (induction ds arbitrary: rs)
  case Nil
  then show ?case by simp
next
  case (Cons d ds)
  from Cons.prems obtain rs1 where d: "causal_doc rs d = Inr rs1"
    and rest: "causal_docs rs1 ds = Inr rs'"
    by (auto split: sum.splits)
  from d have "s |\<in>| rs1 \<longleftrightarrow> s |\<in>| rs \<or> (spec_causal_accepts d \<and> subject d = Some s)"
    by (auto simp: causal_doc_refines split: if_splits option.splits)
  with Cons.IH [OF rest] show ?case by auto
qed

text \<open>
  The whole loop: a run that returns has read the pages of \<open>pages_read\<close>, and its
  result holds the initial set and the subjects of the records read that meet the rule.
\<close>

lemma causal_pages_result:
  assumes "causal_pages fetch start rc rs = Some (Inr rs')"
  shows "\<exists>ds. pages_read fetch start rc = Some ds
           \<and> (\<forall>s. s |\<in>| rs' \<longleftrightarrow>
                  s |\<in>| rs \<or> (\<exists>d \<in> set ds. spec_causal_accepts d \<and> subject d = Some s))"
proof -
  have "y = Inr rs' \<Longrightarrow>
        \<exists>ds. pages_read f s c = Some ds
           \<and> (\<forall>g. g |\<in>| rs' \<longleftrightarrow>
                  g |\<in>| rs \<or> (\<exists>d \<in> set ds. spec_causal_accepts d \<and> subject d = Some g))"
    if "causal_pages f s c rs = Some y" for f s c rs y rs'
    using that
  proof (induct f s c rs y arbitrary: rs' rule: causal_pages.raw_induct)
    case (1 cp f s c rs y)
    show ?case
    proof (cases "s < c")
      case False
      with 1(2) \<open>y = Inr rs'\<close> have "rs' = rs" by simp
      with False show ?thesis by (subst pages_read.simps) simp
    next
      case True
      with 1(2) \<open>y = Inr rs'\<close> obtain resp where f: "f s = Inr resp"
        by (cases "f s") auto
      with True 1(2) \<open>y = Inr rs'\<close> obtain rs1 where c: "causal_docs rs (docs resp) = Inr rs1"
        by (cases "causal_docs rs (docs resp)") auto
      from True 1(2) f c have rec: "cp f (s + rows) (numFound resp) rs1 = Some y" by simp
      from True 1(4) f c have rec': "causal_pages f (s + rows) (numFound resp) rs1 = Some y"
        by (subst (asm) causal_pages.simps) simp
      from 1(1) [OF rec \<open>y = Inr rs'\<close> rec'] obtain ds where
        ds: "pages_read f (s + rows) (numFound resp) = Some ds"
        and m: "\<forall>g. g |\<in>| rs' \<longleftrightarrow>
                  g |\<in>| rs1 \<or> (\<exists>d \<in> set ds. spec_causal_accepts d \<and> subject d = Some g)"
        by blast
      from True f ds have "pages_read f s c = Some (docs resp @ ds)"
        by (subst pages_read.simps) simp
      moreover from m causal_docs_result [OF c]
      have "\<forall>g. g |\<in>| rs' \<longleftrightarrow>
                  g |\<in>| rs \<or> (\<exists>d \<in> set (docs resp @ ds). spec_causal_accepts d \<and> subject d = Some g)"
        by auto
      ultimately show ?thesis by blast
    qed
  qed (rule that)
  from this [OF assms refl] show ?thesis .
qed

text \<open>The loop ends when the counts the server reports are bounded.\<close>

lemma causal_pages_returns:
  assumes bound: "\<And>s resp. fetch s = Inr resp \<Longrightarrow> numFound resp \<le> b"
  shows "\<exists>y. causal_pages fetch start rc rs = Some y"
proof -
  have "rc \<le> B \<Longrightarrow> b \<le> B \<Longrightarrow> \<exists>y. causal_pages fetch start rc rs = Some y" for B
  proof (induction "nat (B - start)" arbitrary: start rc rs rule: less_induct)
    case less
    show ?case
    proof (cases "start < rc")
      case False
      then show ?thesis by (subst causal_pages.simps) simp
    next
      case True
      show ?thesis
      proof (cases "fetch start")
        case (Inl e)
        with True show ?thesis by (subst causal_pages.simps) simp
      next
        case (Inr resp)
        show ?thesis
        proof (cases "causal_docs rs (docs resp)")
          case (Inl e)
          with True Inr show ?thesis by (subst causal_pages.simps) simp
        next
          case rs1: (Inr rs1)
          from True less.prems have "nat (B - (start + rows)) < nat (B - start)"
            by (simp add: rows_def)
          moreover from bound [OF Inr] less.prems have "numFound resp \<le> B" by simp
          ultimately obtain y where
            "causal_pages fetch (start + rows) (numFound resp) rs1 = Some y"
            using less.hyps less.prems(2) by blast
          with True Inr rs1 show ?thesis by (subst causal_pages.simps) simp
        qed
      qed
    qed
  qed
  from this [of "max rc b"] show ?thesis by simp
qed

lemmas causal_simps =
  get_causal_gene_phenotype_assocs_def causal_pages.simps pages_read.simps rows_def
  causal_doc_def causal_source_def likely_pathogenic_def hpoa_def

lemma causal_example_run:
  "get_causal_gene_phenotype_assocs causal_example_fetch = Some (Inr {|''g1'', ''g4'', ''g5''|})"
  by (simp add: causal_simps causal_example_fetch_def finsert_commute)

text \<open>
  Claim C6. A gene is in the set \<^verbatim>\<open>get_causal_gene_phenotype_assocs\<close> returns exactly
  when one of the records the run read has it as subject and meets the rule of the
  specification: the relation is not the likely-pathogenic code, and there is no
  provenance list, or one of the sources is in the allowlist, or the provenance list is
  the curated phenotype annotation source alone. A gene all of whose records carry the
  likely-pathogenic code is not in the result, whatever their provenance. Record by
  record: a record with a subject adds it exactly when it meets the rule, a record that
  does not meet the rule leaves the result set as it is, and a record whose relation is
  the likely-pathogenic code never meets it.
\<close>

theorem causal_extraction_spec:
  "(get_causal_gene_phenotype_assocs fetch = Some (Inr result_set) \<longrightarrow>
      (\<exists>ds. pages_read fetch 0 rows = Some ds
         \<and> (\<forall>s. s |\<in>| result_set \<longleftrightarrow>
                (\<exists>d \<in> set ds. spec_causal_accepts d \<and> subject d = Some s))
         \<and> (\<forall>s. (\<forall>d \<in> set ds. subject d = Some s \<longrightarrow> relation d = Some likely_pathogenic)
                \<longrightarrow> s |\<notin>| result_set)))
   \<and> (subject d = Some s \<longrightarrow>
        causal_doc rs d = Inr (if spec_causal_accepts d then finsert s rs else rs))
   \<and> (\<not> spec_causal_accepts d \<longrightarrow> causal_doc rs d = Inr rs)
   \<and> (relation d = Some likely_pathogenic \<longrightarrow>
        \<not> spec_causal_accepts d \<and> causal_doc rs d = Inr rs)"
proof (intro conjI impI)
  assume run: "get_causal_gene_phenotype_assocs fetch = Some (Inr result_set)"
  then have "causal_pages fetch 0 rows {||} = Some (Inr result_set)"
    by (simp add: get_causal_gene_phenotype_assocs_def)
  from causal_pages_result [OF this] obtain ds where
    ds: "pages_read fetch 0 rows = Some ds"
    and m: "\<forall>s. s |\<in>| result_set \<longleftrightarrow>
                (\<exists>d \<in> set ds. spec_causal_accepts d \<and> subject d = Some s)"
    by auto
  have "s |\<notin>| result_set"
    if "\<forall>d \<in> set ds. subject d = Some s \<longrightarrow> relation d = Some likely_pathogenic" for s
  proof
    assume "s |\<in>| result_set"
    with m obtain d where "d \<in> set ds" and a: "spec_causal_accepts d" and "subject d = Some s"
      by blast
    with that have "relation d = Some likely_pathogenic" by blast
    with a show False by (simp add: spec_causal_accepts_def)
  qed
  with ds m show "\<exists>ds. pages_read fetch 0 rows = Some ds
         \<and> (\<forall>s. s |\<in>| result_set \<longleftrightarrow>
                (\<exists>d \<in> set ds. spec_causal_accepts d \<and> subject d = Some s))
         \<and> (\<forall>s. (\<forall>d \<in> set ds. subject d = Some s \<longrightarrow> relation d = Some likely_pathogenic)
                \<longrightarrow> s |\<notin>| result_set)"
    by blast
next
  assume "subject d = Some s"
  then show "causal_doc rs d = Inr (if spec_causal_accepts d then finsert s rs else rs)"
    by (simp add: causal_doc_refines)
next
  assume "\<not> spec_causal_accepts d"
  then show "causal_doc rs d = Inr rs" by (simp add: causal_doc_refines)
next
  assume "relation d = Some likely_pathogenic"
  then show "\<not> spec_causal_accepts d" by (simp add: spec_causal_accepts_def)
  then show "causal_doc rs d = Inr rs" by (simp add: causal_doc_refines)
qed

theorem causal_extraction_spec_witness:
  "get_causal_gene_phenotype_assocs causal_example_fetch = Some (Inr {|''g1'', ''g4'', ''g5''|})
   \<and> (\<exists>ds. pages_read causal_example_fetch 0 rows = Some ds
         \<and> (\<exists>d \<in> set ds. spec_causal_accepts d \<and> subject d = Some ''g1'')
         \<and> \<not> (\<exists>d \<in> set ds. spec_causal_accepts d \<and> subject d = Some ''g2'')
         \<and> (\<exists>d \<in> set ds. subject d = Some ''g2'' \<and> relation d = Some likely_pathogenic
               \<and> is_defined_by d = Some [''http://data.monarchinitiative.org/ttl/clinvar.ttl'']))
   \<and> causal_doc {||}
       \<lparr>subject = Some ''g2'', relation = Some ''GENO:0000841'',
        is_defined_by = Some [''http://data.monarchinitiative.org/ttl/clinvar.ttl''],
        subject_ortholog_closure = None\<rparr> = Inr {||}"
proof -
  let ?d2 = "\<lparr>subject = Some ''g2'', relation = Some ''GENO:0000841'',
        is_defined_by = Some [''http://data.monarchinitiative.org/ttl/clinvar.ttl''],
        subject_ortholog_closure = None\<rparr>"
  note inst = causal_extraction_spec
    [of causal_example_fetch "{|''g1'', ''g4'', ''g5''|}" ?d2 "''g2''" "{||}"]
  from inst [THEN conjunct1, THEN mp, OF causal_example_run] obtain ds where
    ds: "pages_read causal_example_fetch 0 rows = Some ds"
    and m: "\<forall>s. s |\<in>| {|''g1'', ''g4'', ''g5''|} \<longleftrightarrow>
                (\<exists>d \<in> set ds. spec_causal_accepts d \<and> subject d = Some s)"
    by (elim exE conjE)
  from m [THEN spec, of "''g1''"]
  have 1: "\<exists>d \<in> set ds. spec_causal_accepts d \<and> subject d = Some ''g1''" by simp
  from m [THEN spec, of "''g2''"]
  have 2: "\<not> (\<exists>d \<in> set ds. spec_causal_accepts d \<and> subject d = Some ''g2'')" by simp
  have "pages_read causal_example_fetch 0 rows = Some (docs (projr (causal_example_fetch 0)))"
    by (simp add: causal_simps causal_example_fetch_def)
  with ds have "?d2 \<in> set ds" by (auto simp: causal_example_fetch_def)
  then have 3: "\<exists>d \<in> set ds. subject d = Some ''g2'' \<and> relation d = Some likely_pathogenic
               \<and> is_defined_by d = Some [''http://data.monarchinitiative.org/ttl/clinvar.ttl'']"
    by (intro bexI [of _ ?d2]) (simp_all add: likely_pathogenic_def)
  have lp: "relation ?d2 = Some likely_pathogenic" by (simp add: likely_pathogenic_def)
  from inst [THEN conjunct2, THEN conjunct2, THEN conjunct2, THEN mp, OF lp]
  have 4: "causal_doc {||} ?d2 = Inr {||}" by (rule conjunct2)
  from ds 1 2 3 have "\<exists>ds. pages_read causal_example_fetch 0 rows = Some ds
         \<and> (\<exists>d \<in> set ds. spec_causal_accepts d \<and> subject d = Some ''g1'')
         \<and> \<not> (\<exists>d \<in> set ds. spec_causal_accepts d \<and> subject d = Some ''g2'')
         \<and> (\<exists>d \<in> set ds. subject d = Some ''g2'' \<and> relation d = Some likely_pathogenic
               \<and> is_defined_by d = Some [''http://data.monarchinitiative.org/ttl/clinvar.ttl''])"
    by (intro exI conjI)
  with causal_example_run 4 show ?thesis by (intro conjI)
qed

section \<open>Properties of the classification\<close>

subsection \<open>One closure member\<close>



subsection \<open>Invariants of the loops\<close>


lemma foldl_classify_preserves:
  assumes step: "\<And>r f g. P r \<Longrightarrow> P (fst (classify_ortholog hg hp (r, f) g))"
  shows "P (fst s) \<Longrightarrow> P (fst (foldl (classify_ortholog hg hp) s gs))"
proof (induction gs arbitrary: s)
  case Nil
  then show ?case by simp
next
  case (Cons g gs)
  obtain r f where s: "s = (r, f)" by (cases s)
  with Cons.prems have "P (fst (classify_ortholog hg hp s g))" by (simp add: step)
  then show ?case using Cons.IH by simp
qed

lemma classify_doc_preserves:
  assumes step: "\<And>r f g. P r \<Longrightarrow> P (fst (classify_ortholog hg hp (r, f) g))"
    and unm: "\<And>r s. P r \<Longrightarrow> P (r\<lparr>unmatched_set := s\<rparr>)"
    and "P r" and "classify_doc hg hp r d = Inr r'"
  shows "P r'"
proof -
  have "P r1" if "foldl (classify_ortholog hg hp) (r, False) gs = (r1, f)" for gs r1 f
    using foldl_classify_preserves [of P hg hp "(r, False)" gs] step \<open>P r\<close> that by simp
  with assms(3,4) unm show ?thesis
    by (auto simp: classify_doc_def split: option.splits prod.splits if_splits)
qed

lemma classify_docs_preserves:
  assumes step: "\<And>r f g. P r \<Longrightarrow> P (fst (classify_ortholog hg hp (r, f) g))"
    and unm: "\<And>r s. P r \<Longrightarrow> P (r\<lparr>unmatched_set := s\<rparr>)"
  shows "P r \<Longrightarrow> classify_docs hg hp r ds = Inr r' \<Longrightarrow> P r'"
proof (induction ds arbitrary: r)
  case Nil
  then show ?case by simp
next
  case (Cons d ds)
  then show ?case
    using classify_doc_preserves [of P hg hp r d, OF step unm]
    by (auto split: sum.splits)
qed

text \<open>
  The paging loop ends when the counts the server reports are bounded: every page moves
  the offset forward by \<open>rows\<close>.
\<close>

lemma stats_pages_returns:
  assumes bound: "\<And>s resp. fetch s = Inr resp \<Longrightarrow> numFound resp \<le> b"
  shows "\<exists>y. stats_pages fetch hg hp start rc r = Some y"
proof -
  have "rc \<le> B \<Longrightarrow> b \<le> B \<Longrightarrow> \<exists>y. stats_pages fetch hg hp start rc r = Some y" for B
  proof (induction "nat (B - start)" arbitrary: start rc r rule: less_induct)
    case less
    show ?case
    proof (cases "start < rc")
      case False
      then show ?thesis by (subst stats_pages.simps) simp
    next
      case True
      show ?thesis
      proof (cases "fetch start")
        case (Inl e)
        with True show ?thesis by (subst stats_pages.simps) simp
      next
        case (Inr resp)
        show ?thesis
        proof (cases "classify_docs hg hp r (docs resp)")
          case (Inl e)
          with True Inr show ?thesis by (subst stats_pages.simps) simp
        next
          case r1: (Inr r1)
          from True less.prems have "nat (B - (start + rows)) < nat (B - start)"
            by (simp add: rows_def)
          moreover from bound [OF Inr] less.prems have "numFound resp \<le> B" by simp
          ultimately obtain y where
            "stats_pages fetch hg hp (start + rows) (numFound resp) r1 = Some y"
            using less.hyps less.prems(2) by blast
          with True Inr r1 show ?thesis by (subst stats_pages.simps) simp
        qed
      qed
    qed
  qed
  from this [of "max rc b"] show ?thesis by simp
qed

lemma classify_taxa_returns:
  assumes bound: "\<And>t s resp. solr t s = Inr resp \<Longrightarrow> numFound resp \<le> b"
  shows "\<exists>y. classify_taxa solr hg hp ts v = Some y"
proof (induction ts arbitrary: v)
  case Nil
  then show ?case by simp
next
  case (Cons p ts)
  obtain taxon iri where p: "p = (taxon, iri)" by (cases p)
  from stats_pages_returns [of "solr (map_iri_to_curie iri)" b] bound
  obtain y where y: "get_model_gene_stats solr (map_iri_to_curie iri) hg hp
      (var_model_human_set v) (var_model_only v) (var_multi_model_set v) = Some y"
    unfolding get_model_gene_stats_def by blast
  show ?case
  proof (cases y)
    case (Inl e)
    with y p show ?thesis by simp
  next
    case (Inr res)
    with y p Cons.IH show ?thesis by simp
  qed
qed

lemma stats_pages_rule:
  assumes run: "stats_pages fetch hg hp start rc r = Some (Inr r')"
    and init: "I r"
    and page: "\<And>r ds r1. I r \<Longrightarrow> classify_docs hg hp r ds = Inr r1 \<Longrightarrow> I r1"
  shows "I r'"
proof -
  have "a = hg \<Longrightarrow> b = hp \<Longrightarrow> I r \<Longrightarrow> y = Inr r' \<Longrightarrow> I r'"
    if "stats_pages f a b s c r = Some y" for f a b s c r y r'
    using that
  proof (induct f a b s c r y arbitrary: r' rule: stats_pages.raw_induct)
    case (1 sp f a b s c r y)
    show ?case
    proof (cases "s < c")
      case False
      with 1(2) \<open>y = Inr r'\<close> \<open>I r\<close> show ?thesis by simp
    next
      case True
      with 1(2) \<open>y = Inr r'\<close> obtain resp where f: "f s = Inr resp"
        by (cases "f s") auto
      with True 1(2) \<open>y = Inr r'\<close> obtain r1 where c: "classify_docs a b r (docs resp) = Inr r1"
        by (cases "classify_docs a b r (docs resp)") auto
      from True 1(2) f c have rec: "sp f a b (s + rows) (numFound resp) r1 = Some y"
        by simp
      from True 1(7) f c have rec': "stats_pages f a b (s + rows) (numFound resp) r1 = Some y"
        by (subst (asm) stats_pages.simps) simp
      from page [OF \<open>I r\<close>] c \<open>a = hg\<close> \<open>b = hp\<close> have "I r1" by simp
      with 1(1) [OF rec \<open>a = hg\<close> \<open>b = hp\<close> _ \<open>y = Inr r'\<close> rec'] show ?thesis .
    qed
  qed (rule that)
  from this [OF run refl refl init refl] show ?thesis .
qed

lemma stats_pages_preserves:
  assumes step: "\<And>r f g. P r \<Longrightarrow> P (fst (classify_ortholog hg hp (r, f) g))"
    and unm: "\<And>r s. P r \<Longrightarrow> P (r\<lparr>unmatched_set := s\<rparr>)"
    and "stats_pages fetch hg hp start rc r = Some (Inr r')" and "P r"
  shows "P r'"
  using assms(3,4) classify_docs_preserves [of P hg hp, OF step unm]
  by (rule stats_pages_rule)


lemma classify_ortholog_human_subset:
  "model_human_set r |\<subseteq>| hp \<Longrightarrow>
   model_human_set (fst (classify_ortholog hg hp (r, f) g)) |\<subseteq>| hp"
  by (auto simp: classify_ortholog_def Let_def)

lemma classify_ortholog_multi_outside:
  "multi_model_set r |\<inter>| hp = {||} \<Longrightarrow>
   multi_model_set (fst (classify_ortholog hg hp (r, f) g)) |\<inter>| hp = {||}"
  by (auto simp: classify_ortholog_def Let_def)

lemma classify_ortholog_classified:
  "model_set r |\<subseteq>| model_only r |\<union>| model_human_set r \<Longrightarrow>
   model_set (fst (classify_ortholog hg hp (r, f) g))
     |\<subseteq>| model_only (fst (classify_ortholog hg hp (r, f) g))
         |\<union>| model_human_set (fst (classify_ortholog hg hp (r, f) g))"
  by (auto simp: classify_ortholog_def Let_def)

lemma classify_ortholog_grows:
  "mo |\<subseteq>| model_only r \<and> mh |\<subseteq>| model_human_set r \<and> mm |\<subseteq>| multi_model_set r \<Longrightarrow>
   mo |\<subseteq>| model_only (fst (classify_ortholog hg hp (r, f) g))
   \<and> mh |\<subseteq>| model_human_set (fst (classify_ortholog hg hp (r, f) g))
   \<and> mm |\<subseteq>| multi_model_set (fst (classify_ortholog hg hp (r, f) g))"
  by (auto simp: classify_ortholog_def Let_def)

lemma get_model_gene_stats_facts:
  assumes "get_model_gene_stats solr t hg hp mh mo mm = Some (Inr res)"
  shows "model_set res |\<subseteq>| model_only res |\<union>| model_human_set res"
    and "mo |\<subseteq>| model_only res \<and> mh |\<subseteq>| model_human_set res \<and> mm |\<subseteq>| multi_model_set res"
    and "mh |\<subseteq>| hp \<Longrightarrow> model_human_set res |\<subseteq>| hp"
    and "mm |\<inter>| hp = {||} \<Longrightarrow> multi_model_set res |\<inter>| hp = {||}"
proof -
  let ?r0 = "\<lparr>model_set = {||}, model_only = mo, model_human_set = mh,
              multi_model_set = mm, unmatched_set = {||}\<rparr>"
  from assms have run: "stats_pages (solr t) hg hp 0 rows ?r0 = Some (Inr res)"
    by (simp add: get_model_gene_stats_def)
  show "model_set res |\<subseteq>| model_only res |\<union>| model_human_set res"
    by (rule stats_pages_preserves
          [where P = "\<lambda>r. model_set r |\<subseteq>| model_only r |\<union>| model_human_set r", OF _ _ run])
       (simp_all add: classify_ortholog_classified)
  show "mo |\<subseteq>| model_only res \<and> mh |\<subseteq>| model_human_set res \<and> mm |\<subseteq>| multi_model_set res"
    by (rule stats_pages_preserves
          [where P = "\<lambda>r. mo |\<subseteq>| model_only r \<and> mh |\<subseteq>| model_human_set r
                          \<and> mm |\<subseteq>| multi_model_set r", OF _ _ run])
       (erule classify_ortholog_grows | simp)+
  show "model_human_set res |\<subseteq>| hp" if "mh |\<subseteq>| hp"
    by (rule stats_pages_preserves [where P = "\<lambda>r. model_human_set r |\<subseteq>| hp", OF _ _ run])
       (simp_all add: classify_ortholog_human_subset that)
  show "multi_model_set res |\<inter>| hp = {||}" if "mm |\<inter>| hp = {||}"
    by (rule stats_pages_preserves
          [where P = "\<lambda>r. multi_model_set r |\<inter>| hp = {||}", OF _ _ run])
       (simp_all add: classify_ortholog_multi_outside that)
qed

lemma classify_taxa_invariant:
  assumes "classify_taxa solr hg hp ts v = Some (Inr v')"
    and "var_model_human_set v |\<subseteq>| hp"
    and "var_multi_model_set v |\<inter>| hp = {||}"
    and "\<forall>t ms. all_models v t = Some ms \<longrightarrow> ms |\<subseteq>| var_model_only v |\<union>| var_model_human_set v"
  shows "var_model_human_set v' |\<subseteq>| hp
    \<and> var_multi_model_set v' |\<inter>| hp = {||}
    \<and> (\<forall>t ms. all_models v' t = Some ms \<longrightarrow> ms |\<subseteq>| var_model_only v' |\<union>| var_model_human_set v')"
  using assms
proof (induction ts arbitrary: v)
  case Nil
  then show ?case by simp
next
  case (Cons p ts)
  obtain taxon iri where p: "p = (taxon, iri)" by (cases p)
  from Cons.prems(1) p obtain res where
    step: "get_model_gene_stats solr (map_iri_to_curie iri) hg hp (var_model_human_set v)
             (var_model_only v) (var_multi_model_set v) = Some (Inr res)"
    by (auto split: option.splits sum.splits)
  let ?v1 = "\<lparr>var_model_only = model_only res,
              all_models = (all_models v)(taxon \<mapsto> model_set res),
              var_model_human_set = model_human_set res,
              var_multi_model_set = multi_model_set res\<rparr>"
  from Cons.prems(1) p step have rest: "classify_taxa solr hg hp ts ?v1 = Some (Inr v')"
    by simp
  note f = get_model_gene_stats_facts [OF step]
  have a: "var_model_human_set ?v1 |\<subseteq>| hp" using f(3) Cons.prems(2) by simp
  have b: "var_multi_model_set ?v1 |\<inter>| hp = {||}" using f(4) Cons.prems(3) by simp
  have c: "\<forall>t ms. all_models ?v1 t = Some ms \<longrightarrow>
             ms |\<subseteq>| var_model_only ?v1 |\<union>| var_model_human_set ?v1"
    using f(1) f(2) Cons.prems(4) by (auto split: if_splits)
  from Cons.IH [OF rest a b c] show ?case .
qed

lemma init_vars_invariant:
  "var_model_human_set init_vars |\<subseteq>| hp
   \<and> var_multi_model_set init_vars |\<inter>| hp = {||}
   \<and> (\<forall>t ms. all_models init_vars t = Some ms \<longrightarrow>
         ms |\<subseteq>| var_model_only init_vars |\<union>| var_model_human_set init_vars)"
  by (simp add: init_vars_def)


lemma classify_taxa_append:
  "classify_taxa solr hg hp (ts1 @ ts2) v =
     (case classify_taxa solr hg hp ts1 v of
        None \<Rightarrow> None
      | Some (Inl e) \<Rightarrow> Some (Inl e)
      | Some (Inr v1) \<Rightarrow> classify_taxa solr hg hp ts2 v1)"
  by (induction ts1 arbitrary: v) (auto split: option.splits sum.splits)

lemma classify_taxa_prefix:
  assumes "classify_taxa solr hg hp (ts1 @ ts2) v = Some (Inr v2)"
  obtains v1 where "classify_taxa solr hg hp ts1 v = Some (Inr v1)"
    and "classify_taxa solr hg hp ts2 v1 = Some (Inr v2)"
  using assms by (auto simp: classify_taxa_append split: option.splits sum.splits)

lemma run_invariant:
  assumes "classify_taxa solr hg hp ts init_vars = Some (Inr v)"
  shows "var_model_human_set v |\<subseteq>| hp"
    and "var_multi_model_set v |\<inter>| hp = {||}"
    and "all_models v t = Some ms \<Longrightarrow> ms |\<subseteq>| var_model_only v |\<union>| var_model_human_set v"
  using classify_taxa_invariant [OF assms, of ] init_vars_invariant [of hp] by blast+

lemma main_classification_run:
  assumes "main_classification solr ts hg hp = Some (Inr (v, rep))"
  shows "classify_taxa solr hg hp ts init_vars = Some (Inr v)"
    and "one_species_counts v ts = Inr (one_species rep)"
    and "human_only rep = int (fcard hp) - int (fcard (var_model_human_set v))"
  using assms
  by (auto simp: main_classification_def split: option.splits sum.splits)

lemma one_species_counts_members:
  "one_species_counts v ts = Inr ns \<Longrightarrow> (t, n) \<in> set ns \<Longrightarrow> one_species_count v t = Inr n"
  by (induction ts arbitrary: ns) (auto split: sum.splits)

lemma disjoint_parts_fcard:
  assumes "A |\<inter>| B = {||}"
  shows "fcard (ms |\<inter>| A) + fcard (ms |\<inter>| B) \<le> fcard ms"
proof -
  from assms have "(ms |\<inter>| A) |\<inter>| (ms |\<inter>| B) = {||}" by auto
  then have "fcard (ms |\<inter>| A) + fcard (ms |\<inter>| B) = fcard ((ms |\<inter>| A) |\<union>| (ms |\<inter>| B))"
    by (simp add: fcard_funion_disjoint)
  also have "\<dots> \<le> fcard ms" by (rule fcard_mono) auto
  finally show ?thesis .
qed


lemma classify_ortholog_model_only_range:
  "multi_model_set r |\<subseteq>| model_only r \<and> model_only r |\<subseteq>| hg |-| hp \<Longrightarrow>
   multi_model_set (fst (classify_ortholog hg hp (r, f) g))
     |\<subseteq>| model_only (fst (classify_ortholog hg hp (r, f) g))
   \<and> model_only (fst (classify_ortholog hg hp (r, f) g)) |\<subseteq>| hg |-| hp"
  by (auto simp: classify_ortholog_def Let_def)

lemma get_model_gene_stats_model_only_range:
  assumes "get_model_gene_stats solr t hg hp mh mo mm = Some (Inr res)"
    and "mm |\<subseteq>| mo \<and> mo |\<subseteq>| hg |-| hp"
  shows "multi_model_set res |\<subseteq>| model_only res \<and> model_only res |\<subseteq>| hg |-| hp"
proof -
  let ?r0 = "\<lparr>model_set = {||}, model_only = mo, model_human_set = mh,
              multi_model_set = mm, unmatched_set = {||}\<rparr>"
  from assms(1) have run: "stats_pages (solr t) hg hp 0 rows ?r0 = Some (Inr res)"
    by (simp add: get_model_gene_stats_def)
  show ?thesis
    by (rule stats_pages_preserves
          [where P = "\<lambda>r. multi_model_set r |\<subseteq>| model_only r \<and> model_only r |\<subseteq>| hg |-| hp",
           OF _ _ run])
       (erule classify_ortholog_model_only_range | simp add: assms(2))+
qed

text \<open>
  Every gene in \<open>multi_model_set\<close> is in \<open>model_only\<close>, and every gene in \<open>model_only\<close> is
  a human gene outside the evidence set.
\<close>

lemma run_model_only_range:
  "classify_taxa solr hg hp ts v = Some (Inr v') \<Longrightarrow>
   var_multi_model_set v |\<subseteq>| var_model_only v \<and> var_model_only v |\<subseteq>| hg |-| hp \<Longrightarrow>
   var_multi_model_set v' |\<subseteq>| var_model_only v' \<and> var_model_only v' |\<subseteq>| hg |-| hp"
proof (induction ts arbitrary: v)
  case Nil
  then show ?case by simp
next
  case (Cons p ts)
  obtain taxon iri where p: "p = (taxon, iri)" by (cases p)
  from Cons.prems(1) p obtain res where
    step: "get_model_gene_stats solr (map_iri_to_curie iri) hg hp (var_model_human_set v)
             (var_model_only v) (var_multi_model_set v) = Some (Inr res)"
    by (auto split: option.splits sum.splits)
  let ?v1 = "\<lparr>var_model_only = model_only res,
              all_models = (all_models v)(taxon \<mapsto> model_set res),
              var_model_human_set = model_human_set res,
              var_multi_model_set = multi_model_set res\<rparr>"
  from Cons.prems(1) p step have rest: "classify_taxa solr hg hp ts ?v1 = Some (Inr v')"
    by simp
  from get_model_gene_stats_model_only_range [OF step Cons.prems(2)]
  have "var_multi_model_set ?v1 |\<subseteq>| var_model_only ?v1 \<and> var_model_only ?v1 |\<subseteq>| hg |-| hp"
    by simp
  from Cons.IH [OF rest this] show ?case .
qed


subsection \<open>Evaluating the example runs\<close>

lemma scenario_curies:
  "map_iri_to_curie ''http://purl.obolibrary.org/obo/NCBITaxon_1'' = ''NCBITaxon:1''"
  "map_iri_to_curie ''http://purl.obolibrary.org/obo/NCBITaxon_2'' = ''NCBITaxon:2''"
  "map_iri_to_curie ''http://purl.obolibrary.org/obo/NCBITaxon_3'' = ''NCBITaxon:3''"
  by code_simp+

lemma taxon_curies:
  "map_iri_to_curie ''http://purl.obolibrary.org/obo/NCBITaxon_10090'' = ''NCBITaxon:10090''"
  "map_iri_to_curie ''http://purl.obolibrary.org/obo/NCBITaxon_7955'' = ''NCBITaxon:7955''"
  "map_iri_to_curie ''http://purl.obolibrary.org/obo/NCBITaxon_6239'' = ''NCBITaxon:6239''"
  "map_iri_to_curie ''http://purl.obolibrary.org/obo/NCBITaxon_7227'' = ''NCBITaxon:7227''"
  by code_simp+

lemmas run_simps =
  main_classification_def classify_taxa.simps get_model_gene_stats_def stats_pages.simps
  rows_def classify_doc_def classify_ortholog_def ortholog_doc_def init_vars_def
  one_species_count_def Let_def fcard_finsert_if

lemmas store_simps =
  get_model_gene_stats_at_def new_set_def stats_pages_at.simps rows_def classify_doc_at_def
  classify_ortholog_at_def set_add_def set_has_def ortholog_doc_def Let_def

lemmas main_at_simps =
  main_classification_at_def classify_taxa_at.simps store_simps vars_contents_def
  one_species_count_def fcard_finsert_if

lemma scenario_run:
  "classify_taxa scenario_solr scenario_human_genes scenario_pheno scenario_taxa init_vars =
     Some (Inr \<lparr>var_model_only = {|''H3'', ''H4''|},
        all_models = [''A'' \<mapsto> {|''H1'', ''H3''|}, ''B'' \<mapsto> {|''H3'', ''H4''|}, ''C'' \<mapsto> {|''H4''|}],
        var_model_human_set = {|''H1''|},
        var_multi_model_set = {|''H3'', ''H4''|}\<rparr>)"
  by (simp add: run_simps scenario_taxa_def scenario_solr_def scenario_human_genes_def
        scenario_pheno_def scenario_curies finsert_commute)

lemma scenario_main:
  "main_classification scenario_solr scenario_taxa scenario_human_genes scenario_pheno
     = Some (Inr (scenario_vars, scenario_report))"
  unfolding main_classification_def scenario_run
  by (simp add: one_species_count_def scenario_taxa_def scenario_pheno_def fcard_finsert_if
        scenario_vars_def scenario_report_def)

lemma scenario_first_step:
  "get_model_gene_stats scenario_solr ''NCBITaxon:1'' scenario_human_genes scenario_pheno
       {||} {||} {||}
     = Some (Inr \<lparr>model_set = {|''H1'', ''H3''|}, model_only = {|''H3''|},
                  model_human_set = {|''H1''|}, multi_model_set = {||},
                  unmatched_set = {||}\<rparr>)"
  by (simp add: run_simps scenario_solr_def scenario_human_genes_def scenario_pheno_def
        finsert_commute)

lemma scenario_first_taxon:
  "classify_taxa scenario_solr scenario_human_genes scenario_pheno
       [(''A'', ''http://purl.obolibrary.org/obo/NCBITaxon_1'')] init_vars
     = Some (Inr \<lparr>var_model_only = {|''H3''|}, all_models = [''A'' \<mapsto> {|''H1'', ''H3''|}],
                  var_model_human_set = {|''H1''|}, var_multi_model_set = {||}\<rparr>)"
  by (simp add: scenario_curies scenario_first_step init_vars_def)

subsection \<open>The claims about a run\<close>

text \<open>
  Claim C3. In the scenario of the specification (evidence set \<open>H1\<close>, \<open>H2\<close>; human genes
  \<open>H1\<close> to \<open>H4\<close>; closures \<open>H1\<close>, \<open>H3\<close> for \<open>A\<close>, then \<open>H3\<close>, \<open>H4\<close> for \<open>B\<close>, then \<open>H4\<close>
  for \<open>C\<close>) the run ends with \<open>model_human_set\<close> holding \<open>H1\<close>, with \<open>model_only\<close> and
  \<open>multi_model_set\<close> both holding \<open>H3\<close> and \<open>H4\<close>, with a human-only count of 1 and
  with the count 0 for organism \<open>C\<close>. The value model and the run on the store, where
  \<^verbatim>\<open>main\<close> creates the accumulators itself, agree on this.
\<close>

theorem scenario_end_to_end:
  "(case main_classification scenario_solr scenario_taxa scenario_human_genes scenario_pheno of
      Some (Inr (v, rep)) \<Rightarrow>
        var_model_human_set v = {|''H1''|}
        \<and> var_model_only v = {|''H3'', ''H4''|}
        \<and> var_multi_model_set v = {|''H3'', ''H4''|}
        \<and> human_only rep = 1
        \<and> one_species rep = [(''A'', 0), (''B'', 0), (''C'', 0)]
        \<and> one_species_count v ''C'' = Inr 0
    | _ \<Rightarrow> False)
   \<and> (case main_classification_at scenario_solr scenario_taxa 0 1 scenario_store of
      Some (Inr (v, rep), h') \<Rightarrow>
        cells h' (ref_model_human_set v) = {|''H1''|}
        \<and> cells h' (ref_model_only v) = {|''H3'', ''H4''|}
        \<and> cells h' (ref_multi_model_set v) = {|''H3'', ''H4''|}
        \<and> human_only rep = 1
        \<and> one_species rep = [(''A'', 0), (''B'', 0), (''C'', 0)]
    | _ \<Rightarrow> False)"
proof (rule conjI)
  show "(case main_classification scenario_solr scenario_taxa scenario_human_genes scenario_pheno of
      Some (Inr (v, rep)) \<Rightarrow>
        var_model_human_set v = {|''H1''|}
        \<and> var_model_only v = {|''H3'', ''H4''|}
        \<and> var_multi_model_set v = {|''H3'', ''H4''|}
        \<and> human_only rep = 1
        \<and> one_species rep = [(''A'', 0), (''B'', 0), (''C'', 0)]
        \<and> one_species_count v ''C'' = Inr 0
    | _ \<Rightarrow> False)"
    unfolding main_classification_def scenario_run
    by (simp add: one_species_count_def scenario_taxa_def scenario_pheno_def fcard_finsert_if)
  show "(case main_classification_at scenario_solr scenario_taxa 0 1 scenario_store of
      Some (Inr (v, rep), h') \<Rightarrow>
        cells h' (ref_model_human_set v) = {|''H1''|}
        \<and> cells h' (ref_model_only v) = {|''H3'', ''H4''|}
        \<and> cells h' (ref_multi_model_set v) = {|''H3'', ''H4''|}
        \<and> human_only rep = 1
        \<and> one_species rep = [(''A'', 0), (''B'', 0), (''C'', 0)]
    | _ \<Rightarrow> False)"
    by (simp add: main_at_simps scenario_taxa_def scenario_solr_def scenario_curies
          scenario_store_def scenario_human_genes_def scenario_pheno_def finsert_commute)
qed

text \<open>
  Claim C1. Every gene in \<open>multi_model_set\<close> at the end of a run is to have been matched
  while at least two different organisms were processed. The code tests membership in
  \<open>model_only\<close>, which already holds the genes matched earlier for the organism being
  processed: with two records of the mouse whose closures hold the same human gene, and no
  record for any other organism, the gene ends in \<open>multi_model_set\<close>, the line printed
  for genes in several species counts it, and the count of mouse-only genes is 0. This
  is what the value model computes and what the run on the store computes.
\<close>

theorem paralogs_in_one_organism:
  "(case main_classification paralog_solr TAXON_MAP {|''H3''|} {||} of
      Some (Inr (v, rep)) \<Rightarrow>
        var_multi_model_set v = {|''H3''|}
        \<and> all_models v ''Mouse'' = Some {|''H3''|}
        \<and> all_models v ''ZebraFish'' = Some {||}
        \<and> all_models v ''Worm'' = Some {||}
        \<and> all_models v ''Fly'' = Some {||}
        \<and> multi_species rep = 1
        \<and> one_species rep = [(''Mouse'', 0), (''ZebraFish'', 0), (''Worm'', 0), (''Fly'', 0)]
    | _ \<Rightarrow> False)
   \<and> (case main_classification_at paralog_solr TAXON_MAP 0 1 paralog_store of
      Some (Inr (v, rep), h') \<Rightarrow>
        cells h' (ref_multi_model_set v) = {|''H3''|}
        \<and> multi_species rep = 1
        \<and> one_species rep = [(''Mouse'', 0), (''ZebraFish'', 0), (''Worm'', 0), (''Fly'', 0)]
    | _ \<Rightarrow> False)"
proof (rule conjI)
  show "(case main_classification paralog_solr TAXON_MAP {|''H3''|} {||} of
      Some (Inr (v, rep)) \<Rightarrow>
        var_multi_model_set v = {|''H3''|}
        \<and> all_models v ''Mouse'' = Some {|''H3''|}
        \<and> all_models v ''ZebraFish'' = Some {||}
        \<and> all_models v ''Worm'' = Some {||}
        \<and> all_models v ''Fly'' = Some {||}
        \<and> multi_species rep = 1
        \<and> one_species rep = [(''Mouse'', 0), (''ZebraFish'', 0), (''Worm'', 0), (''Fly'', 0)]
    | _ \<Rightarrow> False)"
    by (simp add: run_simps TAXON_MAP_def paralog_solr_def taxon_curies)
  show "(case main_classification_at paralog_solr TAXON_MAP 0 1 paralog_store of
      Some (Inr (v, rep), h') \<Rightarrow>
        cells h' (ref_multi_model_set v) = {|''H3''|}
        \<and> multi_species rep = 1
        \<and> one_species rep = [(''Mouse'', 0), (''ZebraFish'', 0), (''Worm'', 0), (''Fly'', 0)]
    | _ \<Rightarrow> False)"
    by (simp add: main_at_simps TAXON_MAP_def paralog_solr_def taxon_curies paralog_store_def)
qed

text \<open>
  Claim C4. At the end of a run, every gene in the set of some organism is in
  \<open>model_only\<close> or in \<open>model_human_set\<close>.
\<close>

theorem matched_genes_classified:
  assumes "main_classification solr taxon_map hg hp = Some (Inr (v, rep))"
    and "all_models v taxon = Some ms" and "g |\<in>| ms"
  shows "g |\<in>| var_model_only v \<or> g |\<in>| var_model_human_set v"
  using run_invariant(3) [OF main_classification_run(1) [OF assms(1)] assms(2)] assms(3)
  by auto

theorem matched_genes_classified_witness:
  "main_classification scenario_solr scenario_taxa scenario_human_genes scenario_pheno
     = Some (Inr (scenario_vars, scenario_report))
   \<and> all_models scenario_vars ''C'' = Some {|''H4''|}
   \<and> ''H4'' |\<in>| {|''H4''|}
   \<and> (''H4'' |\<in>| var_model_only scenario_vars \<or> ''H4'' |\<in>| var_model_human_set scenario_vars)"
proof -
  have a: "all_models scenario_vars ''C'' = Some {|''H4''|}"
    by (simp add: scenario_vars_def)
  have b: "''H4'' |\<in>| {|''H4''|}" by simp
  from matched_genes_classified [OF scenario_main a b] scenario_main a b
  show ?thesis by blast
qed

text \<open>
  Claim C5. A step that starts with \<open>model_human_set\<close> inside the evidence set ends with
  it inside the evidence set; the state after the steps for any leading part of the
  organism list, and the state at the end of the run, have \<open>model_human_set\<close> inside the
  evidence set; and the human-only count, the size of the evidence set minus the size of
  \<open>model_human_set\<close>, is not negative.
\<close>

theorem model_human_within_evidence:
  "(get_model_gene_stats solr t hg hp mh mo mm = Some (Inr res) \<longrightarrow> mh |\<subseteq>| hp
      \<longrightarrow> model_human_set res |\<subseteq>| hp)
   \<and> (classify_taxa solr hg hp (ts1 @ ts2) init_vars = Some (Inr v) \<longrightarrow>
        (\<exists>v1. classify_taxa solr hg hp ts1 init_vars = Some (Inr v1)
            \<and> classify_taxa solr hg hp ts2 v1 = Some (Inr v)
            \<and> var_model_human_set v1 |\<subseteq>| hp))
   \<and> (main_classification solr ts hg hp = Some (Inr (v', rep)) \<longrightarrow>
        var_model_human_set v' |\<subseteq>| hp
        \<and> human_only rep = int (fcard hp) - int (fcard (var_model_human_set v'))
        \<and> 0 \<le> human_only rep)"
proof (intro conjI impI)
  assume "get_model_gene_stats solr t hg hp mh mo mm = Some (Inr res)" and "mh |\<subseteq>| hp"
  then show "model_human_set res |\<subseteq>| hp" by (rule get_model_gene_stats_facts(3))
next
  assume "classify_taxa solr hg hp (ts1 @ ts2) init_vars = Some (Inr v)"
  then obtain v1 where a: "classify_taxa solr hg hp ts1 init_vars = Some (Inr v1)"
    and b: "classify_taxa solr hg hp ts2 v1 = Some (Inr v)"
    by (rule classify_taxa_prefix)
  with run_invariant(1) [OF a]
  show "\<exists>v1. classify_taxa solr hg hp ts1 init_vars = Some (Inr v1)
            \<and> classify_taxa solr hg hp ts2 v1 = Some (Inr v)
            \<and> var_model_human_set v1 |\<subseteq>| hp"
    by blast
next
  assume m: "main_classification solr ts hg hp = Some (Inr (v', rep))"
  note r = main_classification_run [OF m]
  show sub: "var_model_human_set v' |\<subseteq>| hp" by (rule run_invariant(1) [OF r(1)])
  show "human_only rep = int (fcard hp) - int (fcard (var_model_human_set v'))" by (rule r(3))
  from fcard_mono [OF sub] r(3) show "0 \<le> human_only rep" by simp
qed

theorem model_human_within_evidence_witness:
  "get_model_gene_stats scenario_solr ''NCBITaxon:1'' scenario_human_genes scenario_pheno
       {||} {||} {||}
     = Some (Inr \<lparr>model_set = {|''H1'', ''H3''|}, model_only = {|''H3''|},
                  model_human_set = {|''H1''|}, multi_model_set = {||},
                  unmatched_set = {||}\<rparr>)
   \<and> {||} |\<subseteq>| scenario_pheno
   \<and> {|''H1''|} |\<subseteq>| scenario_pheno
   \<and> classify_taxa scenario_solr scenario_human_genes scenario_pheno
        ([(''A'', ''http://purl.obolibrary.org/obo/NCBITaxon_1'')]
         @ [(''B'', ''http://purl.obolibrary.org/obo/NCBITaxon_2''),
            (''C'', ''http://purl.obolibrary.org/obo/NCBITaxon_3'')]) init_vars
       = Some (Inr scenario_vars)
   \<and> (\<exists>v1. classify_taxa scenario_solr scenario_human_genes scenario_pheno
              [(''A'', ''http://purl.obolibrary.org/obo/NCBITaxon_1'')] init_vars = Some (Inr v1)
          \<and> var_model_human_set v1 |\<subseteq>| scenario_pheno)
   \<and> main_classification scenario_solr scenario_taxa scenario_human_genes scenario_pheno
       = Some (Inr (scenario_vars, scenario_report))
   \<and> var_model_human_set scenario_vars |\<subseteq>| scenario_pheno
   \<and> 0 \<le> human_only scenario_report"
proof -
  let ?res = "\<lparr>model_set = {|''H1'', ''H3''|}, model_only = {|''H3''|},
               model_human_set = {|''H1''|}, multi_model_set = {||},
               unmatched_set = {||}\<rparr>"
  let ?A = "[(''A'', ''http://purl.obolibrary.org/obo/NCBITaxon_1'')]"
  let ?BC = "[(''B'', ''http://purl.obolibrary.org/obo/NCBITaxon_2''),
              (''C'', ''http://purl.obolibrary.org/obo/NCBITaxon_3'')]"
  have run: "classify_taxa scenario_solr scenario_human_genes scenario_pheno (?A @ ?BC) init_vars
               = Some (Inr scenario_vars)"
    using scenario_run by (simp add: scenario_taxa_def scenario_vars_def)
  have e: "({||} :: gene fset) |\<subseteq>| scenario_pheno" by simp
  note inst = model_human_within_evidence
    [of scenario_solr "''NCBITaxon:1''" scenario_human_genes scenario_pheno "{||}" "{||}" "{||}"
        ?res ?A ?BC scenario_vars scenario_taxa scenario_vars scenario_report]
  from inst scenario_first_step e have 1: "model_human_set ?res |\<subseteq>| scenario_pheno" by blast
  from inst run have 2: "\<exists>v1. classify_taxa scenario_solr scenario_human_genes scenario_pheno
              ?A init_vars = Some (Inr v1) \<and> var_model_human_set v1 |\<subseteq>| scenario_pheno"
    by blast
  from inst scenario_main
  have 3: "var_model_human_set scenario_vars |\<subseteq>| scenario_pheno \<and> 0 \<le> human_only scenario_report"
    by blast
  from 1 2 3 scenario_first_step e run scenario_main show ?thesis by simp
qed

text \<open>
  Claim C9. A closure member in the evidence set goes to \<open>model_human_set\<close> and leaves
  \<open>model_only\<close> and \<open>multi_model_set\<close> as they are. Every closure member keeps
  \<open>multi_model_set\<close> outside the evidence set and \<open>model_human_set\<close> inside it, so in the
  state after the steps for any leading part of the organism list the two sets are
  disjoint. At the end of the run they are disjoint, and for every organism the two sets
  subtracted in its count are disjoint parts of the organism's set and the count is not
  negative.
\<close>

theorem multi_model_disjoint_from_human:
  "(g |\<in>| hp \<longrightarrow>
      g |\<in>| model_human_set (fst (classify_ortholog hg hp (r, f) g))
      \<and> model_only (fst (classify_ortholog hg hp (r, f) g)) = model_only r
      \<and> multi_model_set (fst (classify_ortholog hg hp (r, f) g)) = multi_model_set r)
   \<and> (multi_model_set r |\<inter>| hp = {||} \<and> model_human_set r |\<subseteq>| hp \<longrightarrow>
        multi_model_set (fst (classify_ortholog hg hp (r, f) g)) |\<inter>| hp = {||}
        \<and> model_human_set (fst (classify_ortholog hg hp (r, f) g)) |\<subseteq>| hp)
   \<and> (classify_taxa solr hg hp (ts1 @ ts2) init_vars = Some (Inr v) \<longrightarrow>
        (\<exists>v1. classify_taxa solr hg hp ts1 init_vars = Some (Inr v1)
            \<and> classify_taxa solr hg hp ts2 v1 = Some (Inr v)
            \<and> var_multi_model_set v1 |\<inter>| var_model_human_set v1 = {||}
            \<and> var_multi_model_set v1 |\<inter>| hp = {||}
            \<and> var_model_human_set v1 |\<subseteq>| hp))
   \<and> (main_classification solr ts hg hp = Some (Inr (v', rep)) \<longrightarrow>
        var_multi_model_set v' |\<inter>| var_model_human_set v' = {||}
        \<and> (\<forall>(taxon, n) \<in> set (one_species rep).
              \<exists>ms. all_models v' taxon = Some ms
                \<and> n = int (fcard ms) - int (fcard (ms |\<inter>| var_multi_model_set v'))
                      - int (fcard (ms |\<inter>| var_model_human_set v'))
                \<and> (ms |\<inter>| var_multi_model_set v') |\<inter>| (ms |\<inter>| var_model_human_set v') = {||}
                \<and> 0 \<le> n))"
proof (intro conjI impI)
  assume "g |\<in>| hp"
  then show "g |\<in>| model_human_set (fst (classify_ortholog hg hp (r, f) g))"
    and "model_only (fst (classify_ortholog hg hp (r, f) g)) = model_only r"
    and "multi_model_set (fst (classify_ortholog hg hp (r, f) g)) = multi_model_set r"
    by (simp_all add: classify_ortholog_def)
next
  assume a: "multi_model_set r |\<inter>| hp = {||} \<and> model_human_set r |\<subseteq>| hp"
  from a show "multi_model_set (fst (classify_ortholog hg hp (r, f) g)) |\<inter>| hp = {||}"
    by (simp add: classify_ortholog_multi_outside)
  from a show "model_human_set (fst (classify_ortholog hg hp (r, f) g)) |\<subseteq>| hp"
    by (simp add: classify_ortholog_human_subset)
next
  assume "classify_taxa solr hg hp (ts1 @ ts2) init_vars = Some (Inr v)"
  then obtain v1 where a: "classify_taxa solr hg hp ts1 init_vars = Some (Inr v1)"
    and b: "classify_taxa solr hg hp ts2 v1 = Some (Inr v)"
    by (rule classify_taxa_prefix)
  from run_invariant(1,2) [OF a]
  have "var_multi_model_set v1 |\<inter>| var_model_human_set v1 = {||}" by auto
  with a b run_invariant(1,2) [OF a]
  show "\<exists>v1. classify_taxa solr hg hp ts1 init_vars = Some (Inr v1)
            \<and> classify_taxa solr hg hp ts2 v1 = Some (Inr v)
            \<and> var_multi_model_set v1 |\<inter>| var_model_human_set v1 = {||}
            \<and> var_multi_model_set v1 |\<inter>| hp = {||}
            \<and> var_model_human_set v1 |\<subseteq>| hp"
    by blast
next
  assume m: "main_classification solr ts hg hp = Some (Inr (v', rep))"
  note r = main_classification_run [OF m]
  from run_invariant(1,2) [OF r(1)]
  show d: "var_multi_model_set v' |\<inter>| var_model_human_set v' = {||}" by auto
  show "\<forall>(taxon, n) \<in> set (one_species rep).
              \<exists>ms. all_models v' taxon = Some ms
                \<and> n = int (fcard ms) - int (fcard (ms |\<inter>| var_multi_model_set v'))
                      - int (fcard (ms |\<inter>| var_model_human_set v'))
                \<and> (ms |\<inter>| var_multi_model_set v') |\<inter>| (ms |\<inter>| var_model_human_set v') = {||}
                \<and> 0 \<le> n"
  proof (clarify)
    fix taxon n
    assume "(taxon, n) \<in> set (one_species rep)"
    from one_species_counts_members [OF r(2) this]
    obtain ms where ms: "all_models v' taxon = Some ms"
      and n: "n = int (fcard ms) - int (fcard (ms |\<inter>| var_multi_model_set v'))
                      - int (fcard (ms |\<inter>| var_model_human_set v'))"
      by (auto simp: one_species_count_def split: option.splits)
    from d have e: "(ms |\<inter>| var_multi_model_set v') |\<inter>| (ms |\<inter>| var_model_human_set v') = {||}"
      by auto
    from disjoint_parts_fcard [OF d, of ms] n have "0 \<le> n" by simp
    with ms n e show "\<exists>ms. all_models v' taxon = Some ms
                \<and> n = int (fcard ms) - int (fcard (ms |\<inter>| var_multi_model_set v'))
                      - int (fcard (ms |\<inter>| var_model_human_set v'))
                \<and> (ms |\<inter>| var_multi_model_set v') |\<inter>| (ms |\<inter>| var_model_human_set v') = {||}
                \<and> 0 \<le> n"
      by blast
  qed
qed
theorem multi_model_disjoint_from_human_witness:
  "''H1'' |\<in>| scenario_pheno
   \<and> ''H1'' |\<in>| model_human_set (fst (classify_ortholog scenario_human_genes scenario_pheno
        (\<lparr>model_set = {||}, model_only = {||}, model_human_set = {||},
          multi_model_set = {||}, unmatched_set = {||}\<rparr>, False) ''H1''))
   \<and> multi_model_set (fst (classify_ortholog scenario_human_genes scenario_pheno
        (\<lparr>model_set = {||}, model_only = {||}, model_human_set = {||},
          multi_model_set = {||}, unmatched_set = {||}\<rparr>, False) ''H1'')) = {||}
   \<and> classify_taxa scenario_solr scenario_human_genes scenario_pheno
        ([(''A'', ''http://purl.obolibrary.org/obo/NCBITaxon_1''),
          (''B'', ''http://purl.obolibrary.org/obo/NCBITaxon_2'')]
         @ [(''C'', ''http://purl.obolibrary.org/obo/NCBITaxon_3'')]) init_vars
       = Some (Inr scenario_vars)
   \<and> (\<exists>v1. classify_taxa scenario_solr scenario_human_genes scenario_pheno
              [(''A'', ''http://purl.obolibrary.org/obo/NCBITaxon_1''),
               (''B'', ''http://purl.obolibrary.org/obo/NCBITaxon_2'')] init_vars = Some (Inr v1)
          \<and> var_multi_model_set v1 |\<inter>| var_model_human_set v1 = {||})
   \<and> main_classification scenario_solr scenario_taxa scenario_human_genes scenario_pheno
       = Some (Inr (scenario_vars, scenario_report))
   \<and> var_multi_model_set scenario_vars |\<inter>| var_model_human_set scenario_vars = {||}
   \<and> (''C'', 0) \<in> set (one_species scenario_report)
   \<and> (\<exists>ms. all_models scenario_vars ''C'' = Some ms
          \<and> 0 = int (fcard ms) - int (fcard (ms |\<inter>| var_multi_model_set scenario_vars))
                - int (fcard (ms |\<inter>| var_model_human_set scenario_vars))
          \<and> (ms |\<inter>| var_multi_model_set scenario_vars)
               |\<inter>| (ms |\<inter>| var_model_human_set scenario_vars) = {||}
          \<and> (0 :: int) \<le> 0)"
proof -
  let ?r0 = "\<lparr>model_set = {||}, model_only = {||}, model_human_set = {||},
              multi_model_set = {||}, unmatched_set = {||}\<rparr>"
  let ?AB = "[(''A'', ''http://purl.obolibrary.org/obo/NCBITaxon_1''),
              (''B'', ''http://purl.obolibrary.org/obo/NCBITaxon_2'')]"
  let ?C = "[(''C'', ''http://purl.obolibrary.org/obo/NCBITaxon_3'')]"
  have run: "classify_taxa scenario_solr scenario_human_genes scenario_pheno (?AB @ ?C) init_vars
               = Some (Inr scenario_vars)"
    using scenario_run by (simp add: scenario_taxa_def scenario_vars_def)
  have h: "''H1'' |\<in>| scenario_pheno" by (simp add: scenario_pheno_def)
  have i: "multi_model_set ?r0 |\<inter>| scenario_pheno = {||} \<and> model_human_set ?r0 |\<subseteq>| scenario_pheno"
    by simp
  note inst = multi_model_disjoint_from_human
    [of "''H1''" scenario_pheno scenario_human_genes ?r0 False scenario_solr ?AB ?C
        scenario_vars scenario_taxa scenario_vars scenario_report]
  note c1 = inst [THEN conjunct1, THEN mp, OF h]
  note c2 = inst [THEN conjunct2, THEN conjunct1, THEN mp, OF i]
  note c3 = inst [THEN conjunct2, THEN conjunct2, THEN conjunct1, THEN mp, OF run]
  note c4 = inst [THEN conjunct2, THEN conjunct2, THEN conjunct2, THEN mp, OF scenario_main]
  from c1 have 1:
    "''H1'' |\<in>| model_human_set (fst (classify_ortholog scenario_human_genes scenario_pheno
        (?r0, False) ''H1''))
     \<and> multi_model_set (fst (classify_ortholog scenario_human_genes scenario_pheno
        (?r0, False) ''H1'')) = {||}"
    by simp
  from c3 obtain v1 where
    "classify_taxa scenario_solr scenario_human_genes scenario_pheno ?AB init_vars = Some (Inr v1)"
    and "var_multi_model_set v1 |\<inter>| var_model_human_set v1 = {||}"
    by (elim exE conjE)
  then have 2: "\<exists>v1. classify_taxa scenario_solr scenario_human_genes scenario_pheno
              ?AB init_vars = Some (Inr v1)
          \<and> var_multi_model_set v1 |\<inter>| var_model_human_set v1 = {||}"
    by (intro exI conjI)
  from c4 have 3: "var_multi_model_set scenario_vars |\<inter>| var_model_human_set scenario_vars = {||}"
    by (rule conjunct1)
  have m: "(''C'', 0) \<in> set (one_species scenario_report)"
    by (simp add: scenario_report_def)
  from c4 [THEN conjunct2, THEN bspec, OF m]
  have 4: "\<exists>ms. all_models scenario_vars ''C'' = Some ms
          \<and> 0 = int (fcard ms) - int (fcard (ms |\<inter>| var_multi_model_set scenario_vars))
                - int (fcard (ms |\<inter>| var_model_human_set scenario_vars))
          \<and> (ms |\<inter>| var_multi_model_set scenario_vars)
               |\<inter>| (ms |\<inter>| var_model_human_set scenario_vars) = {||}
          \<and> (0 :: int) \<le> 0"
    by simp
  show ?thesis
    by (intro conjI) (rule h 1 [THEN conjunct1] 1 [THEN conjunct2] run 2 scenario_main 3 m 4)+
qed

section \<open>Properties of the step on the store\<close>

subsection \<open>Which objects a call writes\<close>

lemma foldl_classify_at_preserves:
  assumes step: "\<And>h f g. P h \<Longrightarrow> P (fst (classify_ortholog_at hg hp res (h, f) g))"
  shows "P (fst s) \<Longrightarrow> P (fst (foldl (classify_ortholog_at hg hp res) s gs))"
proof (induction gs arbitrary: s)
  case Nil
  then show ?case by simp
next
  case (Cons g gs)
  obtain h f where s: "s = (h, f)" by (cases s)
  with Cons.prems have "P (fst (classify_ortholog_at hg hp res s g))" by (simp add: step)
  then show ?case using Cons.IH by simp
qed

lemma classify_doc_at_preserves:
  assumes step: "\<And>h f g. P h \<Longrightarrow> P (fst (classify_ortholog_at hg hp res (h, f) g))"
    and unm: "\<And>h s. P h \<Longrightarrow> P (set_add (at_unmatched_set res) s h)"
    and "P h" and "classify_doc_at hg hp res h d = (e, h')"
  shows "P h'"
proof -
  have "P h1" if "foldl (classify_ortholog_at hg hp res) (h, False) gs = (h1, f)" for gs h1 f
    using foldl_classify_at_preserves [of P hg hp res "(h, False)" gs] step \<open>P h\<close> that by simp
  with assms(3,4) unm show ?thesis
    by (auto simp: classify_doc_at_def split: option.splits prod.splits if_splits)
qed

lemma classify_docs_at_preserves:
  assumes step: "\<And>h f g. P h \<Longrightarrow> P (fst (classify_ortholog_at hg hp res (h, f) g))"
    and unm: "\<And>h s. P h \<Longrightarrow> P (set_add (at_unmatched_set res) s h)"
  shows "P h \<Longrightarrow> classify_docs_at hg hp res h ds = (e, h') \<Longrightarrow> P h'"
proof (induction ds arbitrary: h)
  case Nil
  then show ?case by simp
next
  case (Cons d ds)
  obtain e1 h1 where d: "classify_doc_at hg hp res h d = (e1, h1)"
    by (cases "classify_doc_at hg hp res h d")
  from classify_doc_at_preserves [of P hg hp res h d e1 h1, OF step unm Cons.prems(1) d]
  have "P h1" .
  with Cons.prems(2) d Cons.IH [of h1] show ?case
    by (cases e1) auto
qed

lemma stats_pages_at_rule:
  assumes run: "stats_pages_at fetch hg hp res start rc h = Some (e, h')"
    and init: "I h"
    and page: "\<And>h ds e1 h1. I h \<Longrightarrow> classify_docs_at hg hp res h ds = (e1, h1) \<Longrightarrow> I h1"
  shows "I h'"
proof -
  have "a = hg \<Longrightarrow> b = hp \<Longrightarrow> r = res \<Longrightarrow> I h \<Longrightarrow> y = (e, h') \<Longrightarrow> I h'"
    if "stats_pages_at f a b r s c h = Some y" for f a b r s c h y e h'
    using that
  proof (induct f a b r s c h y arbitrary: e h' rule: stats_pages_at.raw_induct)
    case (1 sp f a b r s c h y)
    show ?case
    proof (cases "s < c")
      case False
      with 1(2) \<open>y = (e, h')\<close> \<open>I h\<close> show ?thesis by simp
    next
      case True
      show ?thesis
      proof (cases "f s")
        case (Inl err)
        with True 1(2) \<open>y = (e, h')\<close> \<open>I h\<close> show ?thesis by simp
      next
        case (Inr resp)
        obtain e1 h1 where c: "classify_docs_at a b r h (docs resp) = (e1, h1)"
          by (cases "classify_docs_at a b r h (docs resp)")
        from page [OF \<open>I h\<close>] c \<open>a = hg\<close> \<open>b = hp\<close> \<open>r = res\<close> have "I h1" by simp
        show ?thesis
        proof (cases e1)
          case (Some err)
          with True 1(2) Inr c \<open>y = (e, h')\<close> \<open>I h1\<close> show ?thesis by simp
        next
          case None
          with True 1(2) Inr c
          have rec: "sp f a b r (s + rows) (numFound resp) h1 = Some y" by simp
          from None True 1(8) Inr c
          have rec': "stats_pages_at f a b r (s + rows) (numFound resp) h1 = Some y"
            by (subst (asm) stats_pages_at.simps) simp
          from 1(1) [OF rec \<open>a = hg\<close> \<open>b = hp\<close> \<open>r = res\<close> \<open>I h1\<close> \<open>y = (e, h')\<close> rec']
          show ?thesis .
        qed
      qed
    qed
  qed (rule that)
  from this [OF run refl refl refl init refl] show ?thesis .
qed

lemma stats_pages_at_preserves:
  assumes step: "\<And>h f g. P h \<Longrightarrow> P (fst (classify_ortholog_at hg hp res (h, f) g))"
    and unm: "\<And>h s. P h \<Longrightarrow> P (set_add (at_unmatched_set res) s h)"
    and "stats_pages_at fetch hg hp res start rc h = Some (e, h')" and "P h"
  shows "P h'"
  using assms(3,4) classify_docs_at_preserves [of P hg hp res, OF step unm]
  by (rule stats_pages_at_rule)

text \<open>The step writes to the objects of the dictionary and to no other.\<close>

lemma classify_ortholog_at_writes:
  assumes "next_free h = n \<and> (\<forall>a. a \<notin> W \<longrightarrow> cells h a = c a)"
    and "{at_model_set res, at_model_only res, at_model_human_set res,
          at_multi_model_set res} \<subseteq> W"
  shows "next_free (fst (classify_ortholog_at hg hp res (h, f) g)) = n
     \<and> (\<forall>a. a \<notin> W \<longrightarrow> cells (fst (classify_ortholog_at hg hp res (h, f) g)) a = c a)"
  using assms by (auto simp: classify_ortholog_at_def set_add_def Let_def)

lemma stats_pages_at_writes:
  assumes "stats_pages_at fetch hg hp res start rc h = Some (e, h')"
    and "a \<notin> {at_model_set res, at_model_only res, at_model_human_set res,
               at_multi_model_set res, at_unmatched_set res}"
  shows "cells h' a = cells h a" and "next_free h' = next_free h"
proof -
  let ?W = "{at_model_set res, at_model_only res, at_model_human_set res,
             at_multi_model_set res, at_unmatched_set res}"
  let ?P = "\<lambda>k. next_free k = next_free h \<and> (\<forall>a. a \<notin> ?W \<longrightarrow> cells k a = cells h a)"
  have "?P h'"
  proof (rule stats_pages_at_preserves [where P = ?P, OF _ _ assms(1)])
    show "?P (fst (classify_ortholog_at hg hp res (k, f) g))" if "?P k" for k f g
      using that by (intro classify_ortholog_at_writes) auto
    show "?P (set_add (at_unmatched_set res) s k)" if "?P k" for k s
      using that by (auto simp: set_add_def)
    show "?P h" by simp
  qed
  with assms(2) show "cells h' a = cells h a" and "next_free h' = next_free h" by auto
qed


lemma get_model_gene_stats_at_run:
  assumes "get_model_gene_stats_at solr t hg hp mh mo mm h = Some (out, h')"
  obtains e where
    "stats_pages_at (solr t) hg hp
       \<lparr>at_model_set = next_free h, at_model_only = mo, at_model_human_set = mh,
        at_multi_model_set = mm, at_unmatched_set = Suc (next_free h)\<rparr> 0 rows
       (h\<lparr>cells := (cells h)(next_free h := {||}, Suc (next_free h) := {||}),
          next_free := Suc (Suc (next_free h))\<rparr>) = Some (e, h')"
    and "out = (case e of
                  None \<Rightarrow> Inr \<lparr>at_model_set = next_free h, at_model_only = mo,
                                at_model_human_set = mh, at_multi_model_set = mm,
                                at_unmatched_set = Suc (next_free h)\<rparr>
                | Some err \<Rightarrow> Inl err)"
  using assms
  by (auto simp: get_model_gene_stats_at_def new_set_def Let_def
           split: option.splits prod.splits)


subsection \<open>The store model and the value model agree\<close>

lemma classify_ortholog_at_contents:
  assumes "distinct [at_model_set res, at_model_only res, at_model_human_set res,
                     at_multi_model_set res, at_unmatched_set res]"
    and "hg \<notin> set [at_model_set res, at_model_only res, at_model_human_set res,
                     at_multi_model_set res, at_unmatched_set res]"
    and "hp \<notin> set [at_model_set res, at_model_only res, at_model_human_set res,
                     at_multi_model_set res, at_unmatched_set res]"
    and "classify_ortholog_at hg hp res (h, f) g = (h', f')"
  shows "classify_ortholog (cells h hg) (cells h hp) (contents h res, f) g = (contents h' res, f')"
    and "cells h' hg = cells h hg" and "cells h' hp = cells h hp"
  using assms
  by (auto simp: classify_ortholog_def classify_ortholog_at_def contents_def set_add_def
        set_has_def Let_def split: if_splits)

lemma foldl_classify_at_contents:
  assumes "distinct [at_model_set res, at_model_only res, at_model_human_set res,
                     at_multi_model_set res, at_unmatched_set res]"
    and "hg \<notin> set [at_model_set res, at_model_only res, at_model_human_set res,
                     at_multi_model_set res, at_unmatched_set res]"
    and "hp \<notin> set [at_model_set res, at_model_only res, at_model_human_set res,
                     at_multi_model_set res, at_unmatched_set res]"
  shows "foldl (classify_ortholog_at hg hp res) (h, f) gs = (h', f') \<Longrightarrow>
     foldl (classify_ortholog (cells h hg) (cells h hp)) (contents h res, f) gs
       = (contents h' res, f')
     \<and> cells h' hg = cells h hg \<and> cells h' hp = cells h hp"
proof (induction gs arbitrary: h f)
  case Nil
  then show ?case by simp
next
  case (Cons g gs)
  obtain h1 f1 where s: "classify_ortholog_at hg hp res (h, f) g = (h1, f1)"
    by (cases "classify_ortholog_at hg hp res (h, f) g")
  note c = classify_ortholog_at_contents [OF assms s]
  from Cons.prems s have "foldl (classify_ortholog_at hg hp res) (h1, f1) gs = (h', f')" by simp
  from Cons.IH [OF this] c show ?case by simp
qed

lemma classify_doc_at_contents:
  assumes "distinct [at_model_set res, at_model_only res, at_model_human_set res,
                     at_multi_model_set res, at_unmatched_set res]"
    and "hg \<notin> set [at_model_set res, at_model_only res, at_model_human_set res,
                     at_multi_model_set res, at_unmatched_set res]"
    and "hp \<notin> set [at_model_set res, at_model_only res, at_model_human_set res,
                     at_multi_model_set res, at_unmatched_set res]"
    and "classify_doc_at hg hp res h d = (e, h')"
  shows "classify_doc (cells h hg) (cells h hp) (contents h res) d
           = (case e of None \<Rightarrow> Inr (contents h' res) | Some err \<Rightarrow> Inl err)"
    and "cells h' hg = cells h hg" and "cells h' hp = cells h hp"
proof -
  obtain h1 f1 where fo: "(case subject_ortholog_closure d of
              None \<Rightarrow> (h, False)
            | Some closure \<Rightarrow> foldl (classify_ortholog_at hg hp res) (h, False) closure) = (h1, f1)"
    by (cases "(case subject_ortholog_closure d of
              None \<Rightarrow> (h, False)
            | Some closure \<Rightarrow> foldl (classify_ortholog_at hg hp res) (h, False) closure)")
  have v: "(case subject_ortholog_closure d of
              None \<Rightarrow> (contents h res, False)
            | Some closure \<Rightarrow>
                foldl (classify_ortholog (cells h hg) (cells h hp)) (contents h res, False) closure)
           = (contents h1 res, f1)
         \<and> cells h1 hg = cells h hg \<and> cells h1 hp = cells h hp"
    using fo foldl_classify_at_contents [OF assms(1-3), of h False _ h1 f1]
    by (cases "subject_ortholog_closure d") auto
  have u: "contents (set_add (at_unmatched_set res) s h1) res
             = (contents h1 res)\<lparr>unmatched_set := finsert s (unmatched_set (contents h1 res))\<rparr>"
      "cells (set_add (at_unmatched_set res) s h1) hg = cells h1 hg"
      "cells (set_add (at_unmatched_set res) s h1) hp = cells h1 hp" for s
    using assms(1-3) by (auto simp: contents_def set_add_def)
  have d_at: "classify_doc_at hg hp res h d =
      (if \<not> f1 then
         (case subject d of
            None \<Rightarrow> (Some KeyError, h1)
          | Some s \<Rightarrow> (None, set_add (at_unmatched_set res) s h1))
       else (None, h1))"
    by (simp add: classify_doc_at_def fo)
  have d_v: "classify_doc (cells h hg) (cells h hp) (contents h res) d =
      (if \<not> f1 then
         (case subject d of
            None \<Rightarrow> Inl KeyError
          | Some s \<Rightarrow>
              Inr ((contents h1 res)\<lparr>unmatched_set := finsert s (unmatched_set (contents h1 res))\<rparr>))
       else Inr (contents h1 res))"
    by (simp add: classify_doc_def v [THEN conjunct1])
  have "classify_doc (cells h hg) (cells h hp) (contents h res) d
           = (case e of None \<Rightarrow> Inr (contents h' res) | Some err \<Rightarrow> Inl err)
        \<and> cells h' hg = cells h hg \<and> cells h' hp = cells h hp"
  proof (cases f1)
    case True
    with assms(4) d_at have "e = None" and "h' = h1" by simp_all
    with True d_v v show ?thesis by simp
  next
    case False
    show ?thesis
    proof (cases "subject d")
      case None
      with False assms(4) d_at have "e = Some KeyError" and "h' = h1" by simp_all
      with False None d_v v show ?thesis by simp
    next
      case (Some s)
      with False assms(4) d_at have "e = None" and "h' = set_add (at_unmatched_set res) s h1"
        by simp_all
      with False Some d_v v u [of s] show ?thesis by simp
    qed
  qed
  then show "classify_doc (cells h hg) (cells h hp) (contents h res) d
           = (case e of None \<Rightarrow> Inr (contents h' res) | Some err \<Rightarrow> Inl err)"
    and "cells h' hg = cells h hg" and "cells h' hp = cells h hp"
    by simp_all
qed

lemma classify_docs_at_contents:
  assumes "distinct [at_model_set res, at_model_only res, at_model_human_set res,
                     at_multi_model_set res, at_unmatched_set res]"
    and "hg \<notin> set [at_model_set res, at_model_only res, at_model_human_set res,
                     at_multi_model_set res, at_unmatched_set res]"
    and "hp \<notin> set [at_model_set res, at_model_only res, at_model_human_set res,
                     at_multi_model_set res, at_unmatched_set res]"
  shows "classify_docs_at hg hp res h ds = (e, h') \<Longrightarrow>
     classify_docs (cells h hg) (cells h hp) (contents h res) ds
       = (case e of None \<Rightarrow> Inr (contents h' res) | Some err \<Rightarrow> Inl err)
     \<and> cells h' hg = cells h hg \<and> cells h' hp = cells h hp"
proof (induction ds arbitrary: h)
  case Nil
  then show ?case by auto
next
  case (Cons d ds)
  obtain e1 h1 where d: "classify_doc_at hg hp res h d = (e1, h1)"
    by (cases "classify_doc_at hg hp res h d")
  note c = classify_doc_at_contents [OF assms d]
  show ?case
  proof (cases e1)
    case (Some err)
    with Cons.prems d c show ?thesis by auto
  next
    case None
    with Cons.prems d have "classify_docs_at hg hp res h1 ds = (e, h')" by simp
    from Cons.IH [OF this] c None show ?thesis by simp
  qed
qed

lemma stats_pages_at_contents:
  assumes sep: "distinct [at_model_set res, at_model_only res, at_model_human_set res,
                     at_multi_model_set res, at_unmatched_set res]"
    "hg \<notin> set [at_model_set res, at_model_only res, at_model_human_set res,
                     at_multi_model_set res, at_unmatched_set res]"
    "hp \<notin> set [at_model_set res, at_model_only res, at_model_human_set res,
                     at_multi_model_set res, at_unmatched_set res]"
    and run: "stats_pages_at fetch hg hp res start rc h = Some (e, h')"
  shows "stats_pages fetch (cells h hg) (cells h hp) start rc (contents h res)
           = Some (case e of None \<Rightarrow> Inr (contents h' res) | Some err \<Rightarrow> Inl err)"
proof -
  have "a = hg \<Longrightarrow> b = hp \<Longrightarrow> r = res \<Longrightarrow> y = (e, h') \<Longrightarrow>
        stats_pages f (cells h hg) (cells h hp) s c (contents h res)
           = Some (case e of None \<Rightarrow> Inr (contents h' res) | Some err \<Rightarrow> Inl err)"
    if "stats_pages_at f a b r s c h = Some y" for f a b r s c h y e h'
    using that
  proof (induct f a b r s c h y arbitrary: e h' rule: stats_pages_at.raw_induct)
    case (1 sp f a b r s c h y)
    show ?case
    proof (cases "s < c")
      case False
      with 1(2) \<open>y = (e, h')\<close> show ?thesis
        by (subst stats_pages.simps) auto
    next
      case True
      show ?thesis
      proof (cases "f s")
        case (Inl err)
        with True 1(2) \<open>y = (e, h')\<close> show ?thesis
          by (subst stats_pages.simps) auto
      next
        case (Inr resp)
        obtain e1 h1 where c: "classify_docs_at a b r h (docs resp) = (e1, h1)"
          by (cases "classify_docs_at a b r h (docs resp)")
        from classify_docs_at_contents [OF sep, of h "docs resp" e1 h1] c
          \<open>a = hg\<close> \<open>b = hp\<close> \<open>r = res\<close>
        have v: "classify_docs (cells h hg) (cells h hp) (contents h res) (docs resp)
                   = (case e1 of None \<Rightarrow> Inr (contents h1 res) | Some err \<Rightarrow> Inl err)"
          and k: "cells h1 hg = cells h hg" "cells h1 hp = cells h hp"
          by simp_all
        show ?thesis
        proof (cases e1)
          case (Some err)
          with True 1(2) Inr c v \<open>y = (e, h')\<close> show ?thesis
            by (subst stats_pages.simps) auto
        next
          case None
          with True 1(2) Inr c
          have rec: "sp f a b r (s + rows) (numFound resp) h1 = Some y" by simp
          from None True 1(7) Inr c
          have rec': "stats_pages_at f a b r (s + rows) (numFound resp) h1 = Some y"
            by (subst (asm) stats_pages_at.simps) simp
          from 1(1) [OF rec \<open>a = hg\<close> \<open>b = hp\<close> \<open>r = res\<close> \<open>y = (e, h')\<close> rec'] k
          have "stats_pages f (cells h hg) (cells h hp) (s + rows) (numFound resp)
                  (contents h1 res)
                = Some (case e of None \<Rightarrow> Inr (contents h' res) | Some err \<Rightarrow> Inl err)"
            by simp
          with True Inr v None show ?thesis
            by (subst stats_pages.simps) simp
        qed
      qed
    qed
  qed (rule that)
  from this [OF run refl refl refl refl] show ?thesis .
qed

text \<open>
  A call on the store computes what the value model computes from the contents of the
  objects it is given, provided the accumulators are three different objects, none of
  them one of the two human gene sets. The dictionary returned refers to the caller's
  own accumulators, which is why \<^verbatim>\<open>main\<close> sees the additions to \<^verbatim>\<open>multi_model_set\<close>
  without assigning it.
\<close>

lemma get_model_gene_stats_at_refines:
  assumes run: "get_model_gene_stats_at solr t hg hp mh mo mm h = Some (out, h')"
    and "distinct [mo, mh, mm]"
    and "hg \<notin> {mo, mh, mm}" and "hp \<notin> {mo, mh, mm}"
    and "hg < next_free h" and "hp < next_free h"
    and "mo < next_free h" and "mh < next_free h" and "mm < next_free h"
  shows "get_model_gene_stats solr t (cells h hg) (cells h hp) (cells h mh) (cells h mo)
             (cells h mm)
           = Some (case out of Inl err \<Rightarrow> Inl err | Inr res \<Rightarrow> Inr (contents h' res))"
proof -
  let ?res = "\<lparr>at_model_set = next_free h, at_model_only = mo, at_model_human_set = mh,
               at_multi_model_set = mm, at_unmatched_set = Suc (next_free h)\<rparr>"
  let ?h2 = "h\<lparr>cells := (cells h)(next_free h := {||}, Suc (next_free h) := {||}),
               next_free := Suc (Suc (next_free h))\<rparr>"
  from run obtain e where pages: "stats_pages_at (solr t) hg hp ?res 0 rows ?h2 = Some (e, h')"
    and out: "out = (case e of None \<Rightarrow> Inr ?res | Some err \<Rightarrow> Inl err)"
    by (rule get_model_gene_stats_at_run)
  have sep: "distinct [at_model_set ?res, at_model_only ?res, at_model_human_set ?res,
                     at_multi_model_set ?res, at_unmatched_set ?res]"
    "hg \<notin> set [at_model_set ?res, at_model_only ?res, at_model_human_set ?res,
                     at_multi_model_set ?res, at_unmatched_set ?res]"
    "hp \<notin> set [at_model_set ?res, at_model_only ?res, at_model_human_set ?res,
                     at_multi_model_set ?res, at_unmatched_set ?res]"
    using assms(2-) by auto
  have start: "contents ?h2 ?res
     = \<lparr>model_set = {||}, model_only = cells h mo, model_human_set = cells h mh,
        multi_model_set = cells h mm, unmatched_set = {||}\<rparr>"
    "cells ?h2 hg = cells h hg" "cells ?h2 hp = cells h hp"
    using assms(2-) by (auto simp: contents_def)
  from stats_pages_at_contents [OF sep pages] start out show ?thesis
    by (cases e) (simp_all add: get_model_gene_stats_def)
qed

subsection \<open>The inputs of a call\<close>

lemma scenario_store_step:
  "\<exists>h'. get_model_gene_stats_at scenario_solr ''NCBITaxon:1'' 0 1 2 3 4 scenario_store
           = Some (Inr \<lparr>at_model_set = 5, at_model_only = 3, at_model_human_set = 2,
                        at_multi_model_set = 4, at_unmatched_set = 6\<rparr>, h')
        \<and> cells h' 2 = {|''H1''|} \<and> cells h' 3 = {|''H3''|} \<and> cells h' 4 = {||}
        \<and> cells h' 5 = {|''H1'', ''H3''|} \<and> cells h' 6 = {||}"
  by (simp add: store_simps scenario_store_def scenario_solr_def scenario_human_genes_def
        scenario_pheno_def finsert_commute)


lemma get_model_gene_stats_at_frame:
  assumes "get_model_gene_stats_at solr t hg hp mh mo mm h = Some (out, h')"
  shows "\<forall>a. a \<noteq> mh \<and> a \<noteq> mo \<and> a \<noteq> mm \<and> a \<noteq> next_free h \<and> a \<noteq> Suc (next_free h)
            \<longrightarrow> cells h' a = cells h a"
    and "next_free h' = Suc (Suc (next_free h))"
    and "\<forall>res. out = Inr res \<longrightarrow>
          at_model_human_set res = mh \<and> at_model_only res = mo \<and> at_multi_model_set res = mm
          \<and> at_model_set res = next_free h \<and> at_unmatched_set res = Suc (next_free h)"
proof -
  let ?res = "\<lparr>at_model_set = next_free h, at_model_only = mo, at_model_human_set = mh,
               at_multi_model_set = mm, at_unmatched_set = Suc (next_free h)\<rparr>"
  let ?h2 = "h\<lparr>cells := (cells h)(next_free h := {||}, Suc (next_free h) := {||}),
               next_free := Suc (Suc (next_free h))\<rparr>"
  from assms(1) obtain e where run: "stats_pages_at (solr t) hg hp ?res 0 rows ?h2 = Some (e, h')"
    and out: "out = (case e of None \<Rightarrow> Inr ?res | Some err \<Rightarrow> Inl err)"
    by (rule get_model_gene_stats_at_run)
  have "cells h' a = cells h a"
    if "a \<noteq> mh \<and> a \<noteq> mo \<and> a \<noteq> mm \<and> a \<noteq> next_free h \<and> a \<noteq> Suc (next_free h)" for a
    using stats_pages_at_writes(1) [OF run, of a] that by simp
  then show "\<forall>a. a \<noteq> mh \<and> a \<noteq> mo \<and> a \<noteq> mm \<and> a \<noteq> next_free h \<and> a \<noteq> Suc (next_free h)
            \<longrightarrow> cells h' a = cells h a"
    by blast
  from stats_pages_at_writes(2) [OF run, of "Suc (Suc (Suc (next_free h + mh + mo + mm)))"]
  show "next_free h' = Suc (Suc (next_free h))" by simp
  from out show "\<forall>res. out = Inr res \<longrightarrow>
          at_model_human_set res = mh \<and> at_model_only res = mo \<and> at_multi_model_set res = mm
          \<and> at_model_set res = next_free h \<and> at_unmatched_set res = Suc (next_free h)"
    by (cases e) auto
qed

text \<open>
  Claim C10. A call of the step leaves the set of human genes and the evidence set as
  they were, whatever they and the accumulators hold, provided they are objects other than
  the three accumulators, as they are in every call \<^verbatim>\<open>main\<close> makes. Of all set objects
  the call then writes at most the three accumulators and the two sets it creates itself,
  the organism's set and the unmatched set; this holds also when the call ends with an
  exception. The proviso cannot be dropped: the step adds to the objects it is given, so a
  call that receives one object both as the evidence set and as an accumulator changes
  the evidence set, as the evaluation further down shows.
\<close>

theorem inputs_not_modified:
  assumes "get_model_gene_stats_at solr t hg hp mh mo mm h = Some (out, h')"
    and "hg < next_free h" and "hp < next_free h"
    and "hg \<noteq> mh" and "hg \<noteq> mo" and "hg \<noteq> mm"
    and "hp \<noteq> mh" and "hp \<noteq> mo" and "hp \<noteq> mm"
  shows "cells h' hg = cells h hg \<and> cells h' hp = cells h hp
    \<and> (\<forall>a. a \<noteq> mh \<and> a \<noteq> mo \<and> a \<noteq> mm \<and> a \<noteq> next_free h \<and> a \<noteq> Suc (next_free h)
            \<longrightarrow> cells h' a = cells h a)
    \<and> next_free h' = Suc (Suc (next_free h))
    \<and> (\<forall>res. out = Inr res \<longrightarrow>
          at_model_human_set res = mh \<and> at_model_only res = mo \<and> at_multi_model_set res = mm
          \<and> at_model_set res = next_free h \<and> at_unmatched_set res = Suc (next_free h))"
proof -
  note f = get_model_gene_stats_at_frame [OF assms(1)]
  from f(1) assms(2,4-6) have 1: "cells h' hg = cells h hg" by simp
  from f(1) assms(3,7-9) have 2: "cells h' hp = cells h hp" by simp
  from 1 2 f show ?thesis by blast
qed

theorem inputs_not_modified_witness:
  "(case get_model_gene_stats_at scenario_solr ''NCBITaxon:1'' 0 1 2 3 4 scenario_store of
      None \<Rightarrow> False
    | Some (out, h') \<Rightarrow>
        cells h' 0 = scenario_human_genes \<and> cells h' 1 = scenario_pheno
        \<and> cells h' 2 = {|''H1''|} \<and> next_free h' = 7)"
proof -
  from scenario_store_step obtain h' where
    run: "get_model_gene_stats_at scenario_solr ''NCBITaxon:1'' 0 1 2 3 4 scenario_store
           = Some (Inr \<lparr>at_model_set = 5, at_model_only = 3, at_model_human_set = 2,
                        at_multi_model_set = 4, at_unmatched_set = 6\<rparr>, h')"
    and mh: "cells h' 2 = {|''H1''|}"
    by (elim exE conjE)
  have a: "(0 :: addr) < next_free scenario_store" "(1 :: addr) < next_free scenario_store"
    by (simp_all add: scenario_store_def)
  have b: "(0 :: addr) \<noteq> 2" "(0 :: addr) \<noteq> 3" "(0 :: addr) \<noteq> 4"
    "(1 :: addr) \<noteq> 2" "(1 :: addr) \<noteq> 3" "(1 :: addr) \<noteq> 4"
    by simp_all
  note inst = inputs_not_modified [OF run a b]
  from inst have "cells h' 0 = cells scenario_store 0" and "cells h' 1 = cells scenario_store 1"
    and "next_free h' = Suc (Suc (next_free scenario_store))"
    by simp_all
  then have "cells h' 0 = scenario_human_genes \<and> cells h' 1 = scenario_pheno
        \<and> cells h' 2 = {|''H1''|} \<and> next_free h' = 7"
    using mh by (simp add: scenario_store_def)
  with run show ?thesis by simp
qed

text \<open>
  Against claim C10 as it was stated, for every call: a call of the step that is passed
  the evidence set itself, the object at address 1, as \<open>model_only\<close> returns with the
  gene \<open>H3\<close> added to it.
\<close>

theorem shared_object_is_written:
  "get_model_gene_stats_at scenario_solr ''NCBITaxon:1'' 0 1 2 1 4 scenario_store
     = Some (Inr \<lparr>at_model_set = 5, at_model_only = 1, at_model_human_set = 2,
                  at_multi_model_set = 4, at_unmatched_set = 6\<rparr>, shared_result_store)
   \<and> cells scenario_store 1 = {|''H1'', ''H2''|}
   \<and> cells shared_result_store 1 = {|''H1'', ''H2'', ''H3''|}
   \<and> cells shared_result_store 1 \<noteq> cells scenario_store 1"
proof -
  have run: "get_model_gene_stats_at scenario_solr ''NCBITaxon:1'' 0 1 2 1 4 scenario_store
     = Some (Inr \<lparr>at_model_set = 5, at_model_only = 1, at_model_human_set = 2,
                  at_multi_model_set = 4, at_unmatched_set = 6\<rparr>, shared_result_store)"
    by (simp add: store_simps scenario_store_def scenario_solr_def scenario_human_genes_def
          scenario_pheno_def shared_result_store_def finsert_commute fun_eq_iff)
  have before: "cells scenario_store 1 = {|''H1'', ''H2''|}"
    by (simp add: scenario_store_def scenario_pheno_def)
  have after: "cells shared_result_store 1 = {|''H1'', ''H2'', ''H3''|}"
    by (simp add: shared_result_store_def)
  have "''H3'' |\<in>| cells shared_result_store 1" unfolding after by simp
  moreover have "''H3'' |\<notin>| cells scenario_store 1" unfolding before by simp
  ultimately have "cells shared_result_store 1 \<noteq> cells scenario_store 1" by metis
  with run before after show ?thesis by (intro conjI)
qed

subsection \<open>The run of \<open>main\<close> on the store\<close>

text \<open>
  The loop of \<^verbatim>\<open>main\<close> keeps its three accumulators apart from each other, from the
  two human gene sets and from the sets it has stored in \<^verbatim>\<open>all_models\<close>; under this
  condition the loop on the store computes what the loop of the value model computes.
\<close>

lemma classify_taxa_at_refines:
  assumes "classify_taxa_at solr hg hp ts v h = Some (out, h')"
    and "distinct [ref_model_only v, ref_model_human_set v, ref_multi_model_set v]"
    and "hg \<notin> {ref_model_only v, ref_model_human_set v, ref_multi_model_set v}"
    and "hp \<notin> {ref_model_only v, ref_model_human_set v, ref_multi_model_set v}"
    and "hg < next_free h" and "hp < next_free h"
    and "ref_model_only v < next_free h" and "ref_model_human_set v < next_free h"
    and "ref_multi_model_set v < next_free h"
    and "\<forall>t a. ref_all_models v t = Some a \<longrightarrow>
           a < next_free h
           \<and> a \<notin> {ref_model_only v, ref_model_human_set v, ref_multi_model_set v}"
  shows "classify_taxa solr (cells h hg) (cells h hp) ts (vars_contents h v)
           = Some (case out of Inl e \<Rightarrow> Inl e | Inr v' \<Rightarrow> Inr (vars_contents h' v'))
         \<and> cells h' hg = cells h hg \<and> cells h' hp = cells h hp
         \<and> next_free h \<le> next_free h'"
  using assms
proof (induction ts arbitrary: v h)
  case Nil
  then show ?case by auto
next
  case (Cons p ts)
  obtain taxon iri where p: "p = (taxon, iri)" by (cases p)
  let ?mo = "ref_model_only v" and ?mh = "ref_model_human_set v" and ?mm = "ref_multi_model_set v"
  from Cons.prems(1) p obtain o1 h1 where
    call: "get_model_gene_stats_at solr (map_iri_to_curie iri) hg hp ?mh ?mo ?mm h = Some (o1, h1)"
    by (cases "get_model_gene_stats_at solr (map_iri_to_curie iri) hg hp ?mh ?mo ?mm h") auto
  note fr = get_model_gene_stats_at_frame [OF call]
  from Cons.prems(2-9)
  have val: "get_model_gene_stats solr (map_iri_to_curie iri) (cells h hg) (cells h hp)
               (cells h ?mh) (cells h ?mo) (cells h ?mm)
             = Some (case o1 of Inl err \<Rightarrow> Inl err | Inr res \<Rightarrow> Inr (contents h1 res))"
    by (intro get_model_gene_stats_at_refines [OF call]) auto
  from fr(1) Cons.prems(3-6) have in1: "cells h1 hg = cells h hg" "cells h1 hp = cells h hp"
    by auto
  have vc: "var_model_human_set (vars_contents h v) = cells h ?mh"
    "var_model_only (vars_contents h v) = cells h ?mo"
    "var_multi_model_set (vars_contents h v) = cells h ?mm"
    by (simp_all add: vars_contents_def)
  show ?case
  proof (cases o1)
    case (Inl e)
    with Cons.prems(1) p call have "out = Inl e" and "h' = h1" by auto
    with Inl val in1 fr(2) p vc show ?thesis by simp
  next
    case (Inr res)
    let ?v1 = "v\<lparr>ref_model_only := at_model_only res,
                 ref_all_models := (ref_all_models v)(taxon \<mapsto> at_model_set res),
                 ref_model_human_set := at_model_human_set res\<rparr>"
    from fr(3) Inr have refs: "at_model_human_set res = ?mh" "at_model_only res = ?mo"
      "at_multi_model_set res = ?mm" "at_model_set res = next_free h"
      by simp_all
    from Cons.prems(1) p call Inr
    have rest: "classify_taxa_at solr hg hp ts ?v1 h1 = Some (out, h')" by simp
    have wf: "\<forall>t a. ref_all_models ?v1 t = Some a \<longrightarrow>
           a < next_free h1
           \<and> a \<notin> {ref_model_only ?v1, ref_model_human_set ?v1, ref_multi_model_set ?v1}"
    proof (intro allI impI)
      fix t a
      assume a: "ref_all_models ?v1 t = Some a"
      show "a < next_free h1
           \<and> a \<notin> {ref_model_only ?v1, ref_model_human_set ?v1, ref_multi_model_set ?v1}"
      proof (cases "t = taxon")
        case True
        with a refs fr(2) Cons.prems(7-9) show ?thesis by auto
      next
        case False
        with a have "ref_all_models v t = Some a" by simp
        with Cons.prems(10) have "a < next_free h"
          and "a \<notin> {ref_model_only v, ref_model_human_set v, ref_multi_model_set v}"
          by blast+
        with refs fr(2) show ?thesis by simp
      qed
    qed
    have ih: "classify_taxa solr (cells h1 hg) (cells h1 hp) ts (vars_contents h1 ?v1)
           = Some (case out of Inl e \<Rightarrow> Inl e | Inr v' \<Rightarrow> Inr (vars_contents h' v'))
         \<and> cells h' hg = cells h1 hg \<and> cells h' hp = cells h1 hp
         \<and> next_free h1 \<le> next_free h'"
      using Cons.prems(2-9) refs fr(2) wf by (intro Cons.IH [OF rest]) auto
    have old: "map_option (cells h1) (ref_all_models v t) = map_option (cells h) (ref_all_models v t)"
      for t
    proof (cases "ref_all_models v t")
      case None
      then show ?thesis by simp
    next
      case (Some a)
      with Cons.prems(10) have "a < next_free h" and "a \<noteq> ?mo" and "a \<noteq> ?mh" and "a \<noteq> ?mm"
        by auto
      with fr(1) have "cells h1 a = cells h a" by simp
      with Some show ?thesis by simp
    qed
    have next_vars: "vars_contents h1 ?v1 =
       \<lparr>var_model_only = model_only (contents h1 res),
        all_models = (all_models (vars_contents h v))(taxon \<mapsto> model_set (contents h1 res)),
        var_model_human_set = model_human_set (contents h1 res),
        var_multi_model_set = multi_model_set (contents h1 res)\<rparr>"
      using refs old by (auto simp: vars_contents_def contents_def fun_eq_iff)
    from val Inr vc p have "classify_taxa solr (cells h hg) (cells h hp) (p # ts) (vars_contents h v)
        = classify_taxa solr (cells h hg) (cells h hp) ts (vars_contents h1 ?v1)"
      by (simp add: next_vars)
    with ih in1 fr(2) show ?thesis by simp
  qed
qed

text \<open>
  The classification part of \<^verbatim>\<open>main\<close>, run on a store that holds the two human gene
  sets, prints what the value model prints for the contents of these sets, and leaves the
  contents the value model computes in the objects its variables refer to.
\<close>

lemma main_classification_at_refines:
  assumes "main_classification_at solr taxon_map hg hp h = Some (out, h')"
    and "hg < next_free h" and "hp < next_free h"
  shows "main_classification solr taxon_map (cells h hg) (cells h hp)
           = Some (case out of
                     Inl e \<Rightarrow> Inl e
                   | Inr (v, rep) \<Rightarrow> Inr (vars_contents h' v, rep))"
proof -
  let ?n = "next_free h"
  let ?h3 = "h\<lparr>cells := (cells h)(?n := {||}, Suc ?n := {||}, Suc (Suc ?n) := {||}),
               next_free := Suc (Suc (Suc ?n))\<rparr>"
  let ?v0 = "\<lparr>ref_model_only = ?n, ref_all_models = Map.empty,
              ref_model_human_set = Suc ?n, ref_multi_model_set = Suc (Suc ?n)\<rparr>"
  from assms(1) obtain o4 h4 where
    loop: "classify_taxa_at solr hg hp taxon_map ?v0 ?h3 = Some (o4, h4)"
    by (cases "classify_taxa_at solr hg hp taxon_map ?v0 ?h3")
       (auto simp: main_classification_at_def new_set_def)
  from assms(2,3)
  have r: "classify_taxa solr (cells ?h3 hg) (cells ?h3 hp) taxon_map (vars_contents ?h3 ?v0)
           = Some (case o4 of Inl e \<Rightarrow> Inl e | Inr v' \<Rightarrow> Inr (vars_contents h4 v'))
         \<and> cells h4 hg = cells ?h3 hg \<and> cells h4 hp = cells ?h3 hp
         \<and> next_free ?h3 \<le> next_free h4"
    by (intro classify_taxa_at_refines [OF loop]) auto
  from assms(2,3) have start: "vars_contents ?h3 ?v0 = init_vars"
    "cells ?h3 hg = cells h hg" "cells ?h3 hp = cells h hp"
    by (auto simp: vars_contents_def init_vars_def)
  from r start
  have run: "classify_taxa solr (cells h hg) (cells h hp) taxon_map init_vars
           = Some (case o4 of Inl e \<Rightarrow> Inl e | Inr v' \<Rightarrow> Inr (vars_contents h4 v'))"
    and hp4: "cells h4 hp = cells h hp"
    by simp_all
  show ?thesis
  proof (cases o4)
    case (Inl e)
    with assms(1) loop have "out = Inl e"
      by (auto simp: main_classification_at_def new_set_def)
    with Inl run show ?thesis by (simp add: main_classification_def)
  next
    case (Inr v)
    have vc: "var_model_only (vars_contents h4 v) = cells h4 (ref_model_only v)"
      "var_model_human_set (vars_contents h4 v) = cells h4 (ref_model_human_set v)"
      "var_multi_model_set (vars_contents h4 v) = cells h4 (ref_multi_model_set v)"
      by (simp_all add: vars_contents_def)
    show ?thesis
    proof (cases "one_species_counts (vars_contents h4 v) taxon_map")
      case (Inl e)
      with assms(1) loop Inr have "out = Inl e"
        by (auto simp: main_classification_at_def new_set_def)
      with Inl Inr run show ?thesis by (simp add: main_classification_def)
    next
      case ns: (Inr ns)
      with assms(1) loop Inr have "h' = h4" and
        "out = Inr (v,
                 \<lparr>models_only = int (fcard (cells h4 (ref_model_only v))),
                  models_plus_human = int (fcard (cells h4 (ref_model_human_set v))),
                  human_only = int (fcard (cells h4 hp))
                               - int (fcard (cells h4 (ref_model_human_set v))),
                  multi_species = int (fcard (cells h4 (ref_multi_model_set v))),
                  one_species = ns\<rparr>)"
        by (auto simp: main_classification_at_def new_set_def)
      with ns Inr run hp4 vc show ?thesis by (simp add: main_classification_def)
    qed
  qed
qed

text \<open>
  In a run of \<^verbatim>\<open>main\<close> on the store both human gene sets end as they began.
\<close>

lemma main_classification_at_keeps_inputs:
  assumes "main_classification_at solr taxon_map hg hp h = Some (out, h')"
    and "hg < next_free h" and "hp < next_free h"
  shows "cells h' hg = cells h hg \<and> cells h' hp = cells h hp"
proof -
  let ?n = "next_free h"
  let ?h3 = "h\<lparr>cells := (cells h)(?n := {||}, Suc ?n := {||}, Suc (Suc ?n) := {||}),
               next_free := Suc (Suc (Suc ?n))\<rparr>"
  let ?v0 = "\<lparr>ref_model_only = ?n, ref_all_models = Map.empty,
              ref_model_human_set = Suc ?n, ref_multi_model_set = Suc (Suc ?n)\<rparr>"
  from assms(1) obtain o4 h4 where
    loop: "classify_taxa_at solr hg hp taxon_map ?v0 ?h3 = Some (o4, h4)"
    by (cases "classify_taxa_at solr hg hp taxon_map ?v0 ?h3")
       (auto simp: main_classification_at_def new_set_def)
  from assms(2,3)
  have r: "classify_taxa solr (cells ?h3 hg) (cells ?h3 hp) taxon_map (vars_contents ?h3 ?v0)
           = Some (case o4 of Inl e \<Rightarrow> Inl e | Inr v' \<Rightarrow> Inr (vars_contents h4 v'))
         \<and> cells h4 hg = cells ?h3 hg \<and> cells h4 hp = cells ?h3 hp
         \<and> next_free ?h3 \<le> next_free h4"
    by (intro classify_taxa_at_refines [OF loop]) auto
  with assms(2,3) have k: "cells h4 hg = cells h hg \<and> cells h4 hp = cells h hp" by simp
  from assms(1) loop have "h' = h4"
    by (cases o4; cases "one_species_counts (vars_contents h4 (projr o4)) taxon_map")
       (auto simp: main_classification_at_def new_set_def)
  with k show ?thesis by simp
qed

end
